theory Spec2Isabelle
  imports Main "HOL-Library.Word"
begin

section \<open>Legalization of HLO operations to the TensorFlow dialect\<close>

text \<open>
  A shallow embedding of \<^verbatim>\<open>tensorflow/compiler/mlir/tensorflow/transforms/legalize_hlo.cc\<close>:
  the conversion pattern \<^verbatim>\<open>ConvertSliceOp\<close>, the helper \<^verbatim>\<open>ConvertDotOp\<close> and the pass
  \<^verbatim>\<open>LegalizeHloToTf\<close>. Source locations of operations serve diagnostics only and are
  left out.
\<close>

subsection \<open>Types, integers and attributes\<close>

datatype LogicalResult = success | failure

datatype ElementType = IntegerType nat | FloatType nat

text \<open>A tensor type: a shape with an element type, or an element type alone when the
  rank is unknown.\<close>

datatype Type =
    RankedTensorType "int list" ElementType
  | UnrankedTensorType ElementType

text \<open>
  An \<^verbatim>\<open>APInt\<close> of at most 64 bits keeps its bits in one 64-bit word (\<^verbatim>\<open>U.VAL\<close>).
  \<^verbatim>\<open>getSExtValue\<close> is \<^verbatim>\<open>SignExtend64(U.VAL, BitWidth)\<close>: bit \<open>BitWidth - 1\<close> is copied
  into every higher bit. The index attributes of \<^verbatim>\<open>xla_hlo.slice\<close> have integer elements
  of at most 64 bits; wider integers (several words) are outside the model. A width is
  positive.
\<close>

datatype APInt = APInt nat "64 word"

fun getSExtValue :: "APInt \<Rightarrow> 64 word" where
  "getSExtValue (APInt BitWidth VAL) = signed_take_bit (BitWidth - 1) VAL"

text \<open>
  A dense integer elements attribute: its tensor type and its elements in row-major
  order, each stored in a 64-bit word.
\<close>

datatype DenseIntElementsAttr = DenseIntElementsAttr Type "64 word list"

fun attrType :: "DenseIntElementsAttr \<Rightarrow> Type" where
  "attrType (DenseIntElementsAttr ty vals) = ty"

fun rawData :: "DenseIntElementsAttr \<Rightarrow> 64 word list" where
  "rawData (DenseIntElementsAttr ty vals) = vals"

fun getIntOrFloatBitWidth :: "ElementType \<Rightarrow> nat" where
  "getIntOrFloatBitWidth (IntegerType w) = w"
| "getIntOrFloatBitWidth (FloatType w) = w"

fun getElementType :: "Type \<Rightarrow> ElementType" where
  "getElementType (RankedTensorType shape e) = e"
| "getElementType (UnrankedTensorType e) = e"

definition attrBitWidth :: "DenseIntElementsAttr \<Rightarrow> nat" where
  "attrBitWidth a = getIntOrFloatBitWidth (getElementType (attrType a))"

text \<open>\<^verbatim>\<open>getValues<APInt>()\<close>: the elements, each of the attribute's element width.\<close>

definition getValues :: "DenseIntElementsAttr \<Rightarrow> APInt list" where
  "getValues a = map (APInt (attrBitWidth a)) (rawData a)"

text \<open>
  Modelled from the spec: \<^verbatim>\<open>isSplat\<close> and \<^verbatim>\<open>getSplatValue\<close> belong to the attribute
  library, not to this file. The glossary has: a splat is an attribute array whose
  elements are all equal to one repeated value. An array with no element has no such
  value and is not a splat.
\<close>

fun isSplat :: "DenseIntElementsAttr \<Rightarrow> bool" where
  "isSplat (DenseIntElementsAttr ty []) = False"
| "isSplat (DenseIntElementsAttr ty (v # vs)) = list_all (\<lambda>x. x = v) vs"

text \<open>The repeated value of a splat; the source calls it on splats only.\<close>

fun getSplatValue :: "DenseIntElementsAttr \<Rightarrow> APInt" where
  "getSplatValue (DenseIntElementsAttr ty []) =
     APInt (getIntOrFloatBitWidth (getElementType ty)) 0"
| "getSplatValue (DenseIntElementsAttr ty (v # vs)) =
     APInt (getIntOrFloatBitWidth (getElementType ty)) v"

text \<open>\<^verbatim>\<open>IntegerAttr::getInt\<close> reads the value sign-extended to \<^verbatim>\<open>int64_t\<close>.\<close>

definition getInt :: "APInt \<Rightarrow> 64 word" where
  "getInt a = getSExtValue a"

subsection \<open>Values, operations and the rewriter\<close>

text \<open>A value is a result of the operation with the given identity, or a block
  argument; it carries its type.\<close>

datatype Value = OpResult nat Type | BlockArgument nat Type

fun getType :: "Value \<Rightarrow> Type" where
  "getType (OpResult i ty) = ty"
| "getType (BlockArgument i ty) = ty"

datatype Dialect =
  TensorFlowDialect | XlaHloDialect | XlaHloClientDialect | StandardOpsDialect
  | OtherDialect string

text \<open>
  The operations this file reads or creates, and \<open>OtherOp\<close> for every other kind.
  \<open>HloSliceOp operand start_indices limit_indices strides type\<close> is \<^verbatim>\<open>xla_hlo.slice\<close>,
  \<open>HloDotOp lhs rhs type\<close> is \<^verbatim>\<open>xla_hlo.dot\<close>, \<open>HloReshapeOp type operand\<close> is
  \<^verbatim>\<open>xla_hlo.reshape\<close>; \<open>TFConstOp value\<close>, \<open>TFSliceOp type input begin size\<close> and
  \<open>TFMatMulOp type a b transpose_a transpose_b\<close> are \<^verbatim>\<open>tf.Const\<close>, \<^verbatim>\<open>tf.Slice\<close> and
  \<^verbatim>\<open>tf.MatMul\<close>; \<open>StdCallOp\<close> and \<open>StdConstantOp\<close> are \<^verbatim>\<open>std.call\<close> and
  \<^verbatim>\<open>std.constant\<close>.
\<close>

datatype Operation =
    HloSliceOp Value DenseIntElementsAttr DenseIntElementsAttr DenseIntElementsAttr Type
  | HloDotOp Value Value Type
  | HloReshapeOp Type Value
  | TFConstOp DenseIntElementsAttr
  | TFSliceOp Type Value Value Value
  | TFMatMulOp Type Value Value bool bool
  | StdCallOp string "Value list" Type
  | StdConstantOp Type DenseIntElementsAttr
  | OtherOp Dialect string "Value list" Type

fun resultType :: "Operation \<Rightarrow> Type" where
  "resultType (HloSliceOp operand start limit strides ty) = ty"
| "resultType (HloDotOp lhs rhs ty) = ty"
| "resultType (HloReshapeOp ty operand) = ty"
| "resultType (TFConstOp v) = attrType v"
| "resultType (TFSliceOp ty input begin sz) = ty"
| "resultType (TFMatMulOp ty a b ta tb) = ty"
| "resultType (StdCallOp callee args ty) = ty"
| "resultType (StdConstantOp ty v) = ty"
| "resultType (OtherOp d n args ty) = ty"

text \<open>The result value of the operation with identity \<open>i\<close>.\<close>

definition getResult :: "nat \<Rightarrow> Operation \<Rightarrow> Value" where
  "getResult i op = OpResult i (resultType op)"

text \<open>
  Modelled from the spec: the rewriter belongs to the IR library, not to this file.
  Sections 3 and 4.2 have: the operations of a function are an ordered sequence; a rule
  emits new operations through the rewriter handle and declares, for the result of the
  original operation, its replacement value.

  The rewriter works on the body of the function: the operations in order, each with
  its identity. \<open>insertionPoint\<close> is the index before which a new operation is
  placed, \<open>nextId\<close> the identity of the next operation created, and \<open>replacements\<close>
  the operations declared replaced, each with the value that stands for its result.
\<close>

record Rewriter =
  block :: "(nat \<times> Operation) list"
  insertionPoint :: nat
  nextId :: nat
  replacements :: "(nat \<times> Value) list"

fun indexOf :: "nat \<Rightarrow> (nat \<times> Operation) list \<Rightarrow> nat" where
  "indexOf i [] = 0"
| "indexOf i ((j, op) # ops) = (if i = j then 0 else Suc (indexOf i ops))"

definition setInsertionPointAfter :: "Rewriter \<Rightarrow> nat \<Rightarrow> Rewriter" where
  "setInsertionPointAfter rw i = rw\<lparr>insertionPoint := Suc (indexOf i (block rw))\<rparr>"

text \<open>\<^verbatim>\<open>rewriter.create<Op>(...)\<close> places the operation at the insertion point, which
  then stands behind it, and returns the result of the new operation.\<close>

definition create :: "Rewriter \<Rightarrow> Operation \<Rightarrow> Value \<times> Rewriter" where
  "create rw op =
     (getResult (nextId rw) op,
      rw\<lparr>block := take (insertionPoint rw) (block rw) @ [(nextId rw, op)]
                    @ drop (insertionPoint rw) (block rw),
         insertionPoint := Suc (insertionPoint rw),
         nextId := Suc (nextId rw)\<rparr>)"

text \<open>\<^verbatim>\<open>rewriter.replaceOpWithNewOp<Op>(old, ...)\<close> creates the operation and declares
  its result the replacement of the result of \<open>old\<close>.\<close>

definition replaceOpWithNewOp :: "Rewriter \<Rightarrow> nat \<Rightarrow> Operation \<Rightarrow> Rewriter" where
  "replaceOpWithNewOp rw old op =
     (case create rw op of
        (v, rw') \<Rightarrow> rw'\<lparr>replacements := replacements rw' @ [(old, v)]\<rparr>)"

subsection \<open>ConvertSliceOp\<close>

text \<open>The loop over \<^verbatim>\<open>llvm::zip(start, limit)\<close>: it ends with the shorter range, and each
  round appends \<^verbatim>\<open>limit.getSExtValue() - start.getSExtValue()\<close>, a subtraction of
  \<^verbatim>\<open>int64_t\<close>. On words the subtraction wraps around, as two's complement hardware does;
  C++ leaves the result of an overflowing \<^verbatim>\<open>int64_t\<close> subtraction undefined, so nothing
  is stated below about that case.\<close>

fun size_values_of :: "APInt list \<Rightarrow> APInt list \<Rightarrow> 64 word list" where
  "size_values_of (s # ss) (l # ls) =
     (getSExtValue l - getSExtValue s) # size_values_of ss ls"
| "size_values_of ss ls = []"

text \<open>
  \<^verbatim>\<open>ConvertSliceOp::matchAndRewrite(slice_op, args, rewriter)\<close>. The pattern is an
  \<^verbatim>\<open>OpConversionPattern<xla_hlo::SliceOp>\<close>: on an operation of another kind it does not
  match.
\<close>

fun matchAndRewrite ::
  "nat \<times> Operation \<Rightarrow> Value list \<Rightarrow> Rewriter \<Rightarrow> LogicalResult \<times> Rewriter" where
  "matchAndRewrite (slice_op, HloSliceOp operand start_indices limit_indices strides ty)
       args rewriter =
     (if \<not> isSplat strides \<or> getInt (getSplatValue strides) \<noteq> 1
      then (failure, rewriter)
      else
        let rw0 = setInsertionPointAfter rewriter slice_op;
            size_values =
              size_values_of (getValues start_indices) (getValues limit_indices);
            ty64 = RankedTensorType [int (length size_values)] (IntegerType 64);
            (start, rw1) = create rw0 (TFConstOp start_indices);
            (size_const, rw2) = create rw1 (TFConstOp (DenseIntElementsAttr ty64 size_values));
            rw3 = replaceOpWithNewOp rw2 slice_op (TFSliceOp ty operand start size_const)
        in (success, rw3))"
| "matchAndRewrite (i, HloDotOp lhs rhs ty) args rewriter = (failure, rewriter)"
| "matchAndRewrite (i, HloReshapeOp ty operand) args rewriter = (failure, rewriter)"
| "matchAndRewrite (i, TFConstOp v) args rewriter = (failure, rewriter)"
| "matchAndRewrite (i, TFSliceOp ty input begin sz) args rewriter = (failure, rewriter)"
| "matchAndRewrite (i, TFMatMulOp ty a b ta tb) args rewriter = (failure, rewriter)"
| "matchAndRewrite (i, StdCallOp callee operands ty) args rewriter = (failure, rewriter)"
| "matchAndRewrite (i, StdConstantOp ty v) args rewriter = (failure, rewriter)"
| "matchAndRewrite (i, OtherOp d n operands ty) args rewriter = (failure, rewriter)"

subsection \<open>ConvertDotOp\<close>

text \<open>
  \<^verbatim>\<open>getRank\<close> and \<^verbatim>\<open>getShape\<close> are defined on ranked types only and
  \<^verbatim>\<open>cast<xla_hlo::DotOp>\<close> on \<^verbatim>\<open>xla_hlo.dot\<close> only: elsewhere they stop the program
  with a failed assertion, which is an \<open>error\<close> here.
\<close>

datatype error = NotRanked | NotDotOp

fun getRank :: "Type \<Rightarrow> error + nat" where
  "getRank (RankedTensorType shape e) = Inr (length shape)"
| "getRank (UnrankedTensorType e) = Inl NotRanked"

text \<open>The loop \<^verbatim>\<open>for (int i = 0; i < 2 - rank; ++i) shape_2d.insert(shape_2d.begin(), 1)\<close>,
  by the number of rounds left.\<close>

fun insert_ones :: "nat \<Rightarrow> int list \<Rightarrow> int list" where
  "insert_ones 0 shape_2d = shape_2d"
| "insert_ones (Suc k) shape_2d = insert_ones k (1 # shape_2d)"

fun normalize_rank :: "Type \<Rightarrow> error + Type" where
  "normalize_rank (UnrankedTensorType e) = Inl NotRanked"
| "normalize_rank (RankedTensorType shape e) =
     (if 2 \<le> length shape then Inr (RankedTensorType shape e)
      else Inr (RankedTensorType (insert_ones (2 - length shape) shape) e))"

definition reshape_to_2d :: "Rewriter \<Rightarrow> Value \<Rightarrow> error + Value \<times> Rewriter" where
  "reshape_to_2d rewriter input =
     (case getRank (getType input) of
        Inl e \<Rightarrow> Inl e
      | Inr rank \<Rightarrow>
          if 2 \<le> rank then Inr (input, rewriter)
          else (case normalize_rank (getType input) of
                  Inl e \<Rightarrow> Inl e
                | Inr ty \<Rightarrow> Inr (create rewriter (HloReshapeOp ty input))))"

text \<open>\<^verbatim>\<open>ConvertDotOp(rewriter, old_op)\<close> returns the value that stands for the result of
  \<open>old_op\<close>, and the rewriter with the operations it created. Its caller is among the
  generated patterns.\<close>

fun ConvertDotOp :: "Rewriter \<Rightarrow> nat \<times> Operation \<Rightarrow> error + Value \<times> Rewriter" where
  "ConvertDotOp rewriter (old_op, HloDotOp lhs rhs output_type) =
     (case reshape_to_2d rewriter lhs of
        Inl e \<Rightarrow> Inl e
      | Inr (a, rw1) \<Rightarrow>
     (case reshape_to_2d rw1 rhs of
        Inl e \<Rightarrow> Inl e
      | Inr (b, rw2) \<Rightarrow>
     (case getRank (getType rhs) of
        Inl e \<Rightarrow> Inl e
      | Inr b_old_rank \<Rightarrow>
     (case normalize_rank output_type of
        Inl e \<Rightarrow> Inl e
      | Inr matmul_type \<Rightarrow>
          let transpose_b = (b_old_rank = 1);
              (product, rw3) = create rw2 (TFMatMulOp matmul_type a b False transpose_b);
              (reshape, rw4) = create rw3 (HloReshapeOp output_type product)
          in Inr (reshape, rw4)))))"
| "ConvertDotOp rewriter (old_op, HloSliceOp operand start limit strides ty) = Inl NotDotOp"
| "ConvertDotOp rewriter (old_op, HloReshapeOp ty operand) = Inl NotDotOp"
| "ConvertDotOp rewriter (old_op, TFConstOp v) = Inl NotDotOp"
| "ConvertDotOp rewriter (old_op, TFSliceOp ty input begin sz) = Inl NotDotOp"
| "ConvertDotOp rewriter (old_op, TFMatMulOp ty a b ta tb) = Inl NotDotOp"
| "ConvertDotOp rewriter (old_op, StdCallOp callee operands ty) = Inl NotDotOp"
| "ConvertDotOp rewriter (old_op, StdConstantOp ty v) = Inl NotDotOp"
| "ConvertDotOp rewriter (old_op, OtherOp d n operands ty) = Inl NotDotOp"

subsection \<open>The pass\<close>

text \<open>The dialect and the name of an operation, its kind.\<close>

fun getName :: "Operation \<Rightarrow> Dialect \<times> string" where
  "getName (HloSliceOp operand start limit strides ty) = (XlaHloDialect, ''slice'')"
| "getName (HloDotOp lhs rhs ty) = (XlaHloDialect, ''dot'')"
| "getName (HloReshapeOp ty operand) = (XlaHloDialect, ''reshape'')"
| "getName (TFConstOp v) = (TensorFlowDialect, ''Const'')"
| "getName (TFSliceOp ty input begin sz) = (TensorFlowDialect, ''Slice'')"
| "getName (TFMatMulOp ty a b ta tb) = (TensorFlowDialect, ''MatMul'')"
| "getName (StdCallOp callee operands ty) = (StandardOpsDialect, ''call'')"
| "getName (StdConstantOp ty v) = (StandardOpsDialect, ''constant'')"
| "getName (OtherOp d n operands ty) = (d, n)"

definition getDialect :: "Operation \<Rightarrow> Dialect" where
  "getDialect op = fst (getName op)"

text \<open>The operands of an operation, and the operation with a function applied to each
  operand.\<close>

fun getOperands :: "Operation \<Rightarrow> Value list" where
  "getOperands (HloSliceOp operand start limit strides ty) = [operand]"
| "getOperands (HloDotOp lhs rhs ty) = [lhs, rhs]"
| "getOperands (HloReshapeOp ty operand) = [operand]"
| "getOperands (TFConstOp v) = []"
| "getOperands (TFSliceOp ty input begin sz) = [input, begin, sz]"
| "getOperands (TFMatMulOp ty a b ta tb) = [a, b]"
| "getOperands (StdCallOp callee operands ty) = operands"
| "getOperands (StdConstantOp ty v) = []"
| "getOperands (OtherOp d n operands ty) = operands"

fun mapOperands :: "(Value \<Rightarrow> Value) \<Rightarrow> Operation \<Rightarrow> Operation" where
  "mapOperands f (HloSliceOp operand start limit strides ty) =
     HloSliceOp (f operand) start limit strides ty"
| "mapOperands f (HloDotOp lhs rhs ty) = HloDotOp (f lhs) (f rhs) ty"
| "mapOperands f (HloReshapeOp ty operand) = HloReshapeOp ty (f operand)"
| "mapOperands f (TFConstOp v) = TFConstOp v"
| "mapOperands f (TFSliceOp ty input begin sz) = TFSliceOp ty (f input) (f begin) (f sz)"
| "mapOperands f (TFMatMulOp ty a b ta tb) = TFMatMulOp ty (f a) (f b) ta tb"
| "mapOperands f (StdCallOp callee operands ty) = StdCallOp callee (map f operands) ty"
| "mapOperands f (StdConstantOp ty v) = StdConstantOp ty v"
| "mapOperands f (OtherOp d n operands ty) = OtherOp d n (map f operands) ty"

text \<open>
  The conversion target as \<^verbatim>\<open>runOnFunction\<close> builds it: \<^verbatim>\<open>addLegalDialect\<close> and
  \<^verbatim>\<open>addLegalOp\<close> record a dialect and operation kinds. \<^verbatim>\<open>CallOp\<close> and \<^verbatim>\<open>ConstantOp\<close>
  are the operations \<^verbatim>\<open>std.call\<close> and \<^verbatim>\<open>std.constant\<close>.
\<close>

record ConversionTarget =
  legalDialects :: "Dialect list"
  legalOps :: "(Dialect \<times> string) list"

definition newConversionTarget :: ConversionTarget where
  "newConversionTarget = \<lparr>legalDialects = [], legalOps = []\<rparr>"

definition addLegalDialect :: "ConversionTarget \<Rightarrow> Dialect \<Rightarrow> ConversionTarget" where
  "addLegalDialect target d = target\<lparr>legalDialects := legalDialects target @ [d]\<rparr>"

definition addLegalOp :: "ConversionTarget \<Rightarrow> (Dialect \<times> string) list \<Rightarrow> ConversionTarget" where
  "addLegalOp target names = target\<lparr>legalOps := legalOps target @ names\<rparr>"

definition CallOp :: "Dialect \<times> string" where
  "CallOp = (StandardOpsDialect, ''call'')"

definition ConstantOp :: "Dialect \<times> string" where
  "ConstantOp = (StandardOpsDialect, ''constant'')"

text \<open>
  Modelled from the spec: the legality classifier belongs to the conversion library,
  not to this file. Section 4.3 has: a set of dialect names that are wholesale legal,
  plus an explicit allow-list of individual operation kinds; a function of the kind and
  dialect of the operation alone.
\<close>

definition isLegal :: "ConversionTarget \<Rightarrow> Operation \<Rightarrow> bool" where
  "isLegal target op \<longleftrightarrow>
     fst (getName op) \<in> set (legalDialects target)
     \<or> getName op \<in> set (legalOps target)"

text \<open>
  A rewrite pattern takes the operation (with its identity) and the rewriter, and
  returns success with the rewriter it worked on, or failure. \<open>ConvertSliceOp\<close> is
  the pattern of the class of that name; the driver hands it the current operands.
\<close>

type_synonym Pattern = "nat \<times> Operation \<Rightarrow> Rewriter \<Rightarrow> LogicalResult \<times> Rewriter"

definition ConvertSliceOp :: Pattern where
  "ConvertSliceOp op rewriter = matchAndRewrite op (getOperands (snd op)) rewriter"

text \<open>
  Modelled from the spec: the conversion driver (\<^verbatim>\<open>applyPartialConversion\<close>) belongs to
  the conversion library, not to this file. Sections 2, 4.1, 4.2, 4.4, 5 and 7 have:
  every operation of the function starts on the worklist; an operation popped from the
  worklist and found legal is converted; for an illegal one the rules are tried in
  registration order until one applies, and a rule that does not apply leaves no trace;
  when a rule applied, all uses of the result of the operation are replaced by the
  declared replacement, the operation is removed and the operations the rule created
  are enqueued; a replacement of another type than the result is fatal; when no rule
  applies the function has failed, the driver stops, and the rewrites already applied
  stay. The driver ends with success when the worklist is empty.

  \<open>tryPatterns\<close> gives the rewriter left by the first pattern that applies, \<open>commit\<close>
  the function after the replacement that was declared last for the operation (\<open>None\<close>
  for a replacement of the wrong type),
  \<open>newOps\<close> the identities of the operations created since. The loop need not end (a
  rule may create illegal operations for ever): \<open>convertOperations\<close> counts the rounds
  it may still take and is \<open>None\<close> when none is left.
\<close>

fun tryPatterns :: "Pattern list \<Rightarrow> nat \<times> Operation \<Rightarrow> Rewriter \<Rightarrow> Rewriter option" where
  "tryPatterns [] op rw = None"
| "tryPatterns (p # ps) op rw =
     (case p op rw of
        (success, rw') \<Rightarrow> Some rw'
      | (failure, rw') \<Rightarrow> tryPatterns ps op rw)"

fun replaceUse :: "nat \<Rightarrow> Value \<Rightarrow> Value \<Rightarrow> Value" where
  "replaceUse i v (OpResult j ty) = (if j = i then v else OpResult j ty)"
| "replaceUse i v (BlockArgument j ty) = BlockArgument j ty"

definition replaceAllUsesWith :: "nat \<Rightarrow> Value \<Rightarrow> Rewriter \<Rightarrow> Rewriter" where
  "replaceAllUsesWith i v rw =
     rw\<lparr>block := map (\<lambda>(j, op). (j, mapOperands (replaceUse i v) op)) (block rw)\<rparr>"

definition eraseOp :: "nat \<Rightarrow> Rewriter \<Rightarrow> Rewriter" where
  "eraseOp i rw = rw\<lparr>block := filter (\<lambda>(j, op). j \<noteq> i) (block rw)\<rparr>"

definition commit :: "nat \<times> Operation \<Rightarrow> Rewriter \<Rightarrow> Rewriter option" where
  "commit op rw =
     (case map_of (rev (replacements rw)) (fst op) of
        None \<Rightarrow> Some (eraseOp (fst op) rw)
      | Some v \<Rightarrow>
          if getType v = resultType (snd op)
          then Some (eraseOp (fst op) (replaceAllUsesWith (fst op) v rw))
          else None)"

definition newOps :: "Rewriter \<Rightarrow> Rewriter \<Rightarrow> nat list" where
  "newOps rw rw' = filter (\<lambda>j. nextId rw \<le> j) (map fst (block rw'))"

fun convertOperations ::
  "nat \<Rightarrow> ConversionTarget \<Rightarrow> Pattern list \<Rightarrow> nat list \<Rightarrow> Rewriter
    \<Rightarrow> (LogicalResult \<times> Rewriter) option" where
  "convertOperations 0 target patterns worklist rw = None"
| "convertOperations (Suc fuel) target patterns [] rw = Some (success, rw)"
| "convertOperations (Suc fuel) target patterns (i # worklist) rw =
     (case map_of (block rw) i of
        None \<Rightarrow> convertOperations fuel target patterns worklist rw
      | Some op \<Rightarrow>
          if isLegal target op then convertOperations fuel target patterns worklist rw
          else (case tryPatterns patterns (i, op) rw of
                  None \<Rightarrow> Some (failure, rw)
                | Some rw' \<Rightarrow>
                    (case commit (i, op) rw' of
                       None \<Rightarrow> Some (failure, rw)
                     | Some rw'' \<Rightarrow>
                         convertOperations fuel target patterns
                           (worklist @ newOps rw rw'') rw'')))"

definition applyPartialConversion ::
  "nat \<Rightarrow> Rewriter \<Rightarrow> ConversionTarget \<Rightarrow> Pattern list \<Rightarrow> (LogicalResult \<times> Rewriter) option" where
  "applyPartialConversion fuel function target patterns =
     convertOperations fuel target patterns (map fst (block function)) function"

text \<open>
  \<^verbatim>\<open>LegalizeHloToTf::runOnFunction\<close>. The patterns of
  \<^verbatim>\<open>generated_legalize_hlo.inc\<close>, which \<^verbatim>\<open>populateWithGenerated\<close> adds first, are not in
  this file: they are the parameter \<open>generated\<close>. The result has the function after
  the pass, the errors emitted on it, and whether the pass signalled failure.
\<close>

record PassResult =
  function_body :: Rewriter
  diagnostics :: "string list"
  passFailed :: bool

definition LegalizeHloToTf_target :: ConversionTarget where
  "LegalizeHloToTf_target =
     addLegalOp (addLegalDialect newConversionTarget TensorFlowDialect) [CallOp, ConstantOp]"

definition runOnFunction :: "Pattern list \<Rightarrow> nat \<Rightarrow> Rewriter \<Rightarrow> PassResult option" where
  "runOnFunction generated fuel function =
     (let patterns = generated @ [ConvertSliceOp];
          target = LegalizeHloToTf_target
      in case applyPartialConversion fuel function target patterns of
           None \<Rightarrow> None
         | Some (failure, function') \<Rightarrow>
             Some \<lparr>function_body = function',
                   diagnostics = [''xla_hlo to TF legalization failed.''],
                   passFailed = True\<rparr>
         | Some (success, function') \<Rightarrow>
             Some \<lparr>function_body = function', diagnostics = [], passFailed = False\<rparr>)"

subsection \<open>Notions for the statements\<close>

text \<open>The rewriter after the operations \<open>ops\<close> were created one after the other.\<close>

definition created :: "Rewriter \<Rightarrow> Operation list \<Rightarrow> Rewriter" where
  "created rw ops = foldl (\<lambda>r op. snd (create r op)) rw ops"

text \<open>A function body with the given operations, numbered from 0, before any rewrite.\<close>

definition function_of :: "Operation list \<Rightarrow> Rewriter" where
  "function_of ops =
     \<lparr>block = zip [0 ..< length ops] ops, insertionPoint = 0, nextId = length ops,
      replacements = []\<rparr>"

definition i64_vector :: "64 word list \<Rightarrow> DenseIntElementsAttr" where
  "i64_vector vals =
     DenseIntElementsAttr (RankedTensorType [int (length vals)] (IntegerType 64)) vals"

definition i32_vector :: "64 word list \<Rightarrow> DenseIntElementsAttr" where
  "i32_vector vals =
     DenseIntElementsAttr (RankedTensorType [int (length vals)] (IntegerType 32)) vals"

definition f32_tensor :: "int list \<Rightarrow> Type" where
  "f32_tensor shape = RankedTensorType shape (FloatType 32)"

text \<open>Scenario A: a slice of a rank-2 operand with start \<open>[0, 1]\<close>, limit \<open>[4, 3]\<close> and
  the given strides.\<close>

definition scenarioA_operand :: Value where
  "scenarioA_operand = BlockArgument 0 (f32_tensor [4, 3])"

definition scenarioA_slice :: "64 word list \<Rightarrow> Operation" where
  "scenarioA_slice strides =
     HloSliceOp scenarioA_operand (i64_vector [0, 1]) (i64_vector [4, 3])
       (i64_vector strides) (f32_tensor [4, 2])"

text \<open>Scenario B: a dot of two operands of shape \<open>[8]\<close>; scenario C: of operands of
  shapes \<open>[3, 4]\<close> and \<open>[4, 5]\<close>.\<close>

definition scenarioB_dot :: Operation where
  "scenarioB_dot =
     HloDotOp (BlockArgument 0 (f32_tensor [8])) (BlockArgument 1 (f32_tensor [8]))
       (f32_tensor [])"

definition scenarioC_dot :: Operation where
  "scenarioC_dot =
     HloDotOp (BlockArgument 0 (f32_tensor [3, 4])) (BlockArgument 1 (f32_tensor [4, 5]))
       (f32_tensor [3, 5])"

text \<open>A function whose operations have distinct identities, all below the identity
  of the next operation created.\<close>

definition wellFormed :: "Rewriter \<Rightarrow> bool" where
  "wellFormed rw \<longleftrightarrow>
     distinct (map fst (block rw)) \<and> (\<forall>j \<in> set (map fst (block rw)). j < nextId rw)"

text \<open>A pattern that, when it applies to a well-formed function, leaves it well
  formed, leaves the operations that existed before as they were, and gives new
  operations new identities.\<close>

definition preservesOps :: "Pattern \<Rightarrow> bool" where
  "preservesOps p \<longleftrightarrow>
     (\<forall>op rw rw'. wellFormed rw \<longrightarrow> p op rw = (success, rw') \<longrightarrow>
        wellFormed rw' \<and> nextId rw \<le> nextId rw'
        \<and> (\<forall>j < nextId rw. map_of (block rw') j = map_of (block rw) j))"

text \<open>An illegal operation that the driver cannot convert in the given state of the
  function: no pattern applies to it, or the replacement declared by the pattern that
  applies is of another type than its result.\<close>

definition unconvertible ::
  "ConversionTarget \<Rightarrow> Pattern list \<Rightarrow> nat \<times> Operation \<Rightarrow> Rewriter \<Rightarrow> bool" where
  "unconvertible target patterns op rw \<longleftrightarrow>
     \<not> isLegal target (snd op)
     \<and> (case tryPatterns patterns op rw of
          None \<Rightarrow> True
        | Some rw' \<Rightarrow> commit op rw' = None)"

text \<open>The number of rewrites by the slice pattern alone that take an operation to
  legal operations: none for a legal operation, one for a slice with unit strides; 2
  stands for the operations that the slice pattern does not convert.\<close>

fun unitStrideSlice :: "Operation \<Rightarrow> bool" where
  "unitStrideSlice (HloSliceOp operand start limit strides ty) =
     (isSplat strides \<and> getInt (getSplatValue strides) = 1)"
| "unitStrideSlice op = False"

definition sliceLevel :: "Operation \<Rightarrow> nat" where
  "sliceLevel op =
     (if isLegal LegalizeHloToTf_target op then 0
      else if unitStrideSlice op then 1 else 2)"

text \<open>Two slices of a vector whose limit is below the start: start \<open>[-1, 3]\<close> and limit
  \<open>[2, 1]\<close> in 32-bit attributes (the limit of the second pair is below its start), and
  start \<open>[1]\<close> and limit \<open>[-2^63]\<close> in 64-bit attributes. The strides are 1.\<close>

definition reversed_slice_i32 :: Operation where
  "reversed_slice_i32 =
     HloSliceOp scenarioA_operand (i32_vector [0xFFFFFFFF, 3]) (i32_vector [2, 1])
       (i64_vector [1, 1]) (UnrankedTensorType (FloatType 32))"

definition reversed_slice_i64 :: Operation where
  "reversed_slice_i64 =
     HloSliceOp (BlockArgument 0 (f32_tensor [4])) (i64_vector [1])
       (i64_vector [0x8000000000000000]) (i64_vector [1])
       (UnrankedTensorType (FloatType 32))"

section \<open>Properties\<close>

subsection \<open>Creating operations\<close>

lemma take_Suc_insert: "take (Suc p) (take p b @ x # drop p b) = take p b @ [x]"
  by (cases "p \<le> length b") (simp_all add: min_def)

lemma drop_Suc_insert: "drop (Suc p) (take p b @ x # drop p b) = drop p b"
  by (cases "p \<le> length b") (simp_all add: min_def)

lemma take_Suc_Suc_insert:
  "take (Suc (Suc p)) (take p b @ x # y # drop p b) = take p b @ [x, y]"
  by (cases "p \<le> length b") (simp_all add: min_def)

lemma drop_Suc_Suc_insert:
  "drop (Suc (Suc p)) (take p b @ x # y # drop p b) = drop p b"
  by (cases "p \<le> length b") (simp_all add: min_def)

lemma created_Nil [simp]: "created rw [] = rw"
  by (simp add: created_def)

lemma created_snoc: "created rw (ops @ [op]) = snd (create (created rw ops) op)"
  by (simp add: created_def)

lemma nextId_created [simp]: "nextId (created rw ops) = nextId rw + length ops"
  by (induction ops rule: rev_induct) (simp_all add: created_snoc create_def)

lemma create_created:
  "create (created rw ops) op
   = (getResult (nextId rw + length ops) op, created rw (ops @ [op]))"
  by (simp add: created_snoc) (simp add: create_def)

subsection \<open>The slice pattern\<close>

text \<open>With unit strides the pattern succeeds, and this is the rewriter it leaves.\<close>

lemma matchAndRewrite_unit_stride:
  assumes "isSplat strides" and "getInt (getSplatValue strides) = 1"
  shows "matchAndRewrite (slice_op, HloSliceOp operand start_indices limit_indices strides ty)
           args rewriter
         = (success,
            let p = Suc (indexOf slice_op (block rewriter));
                n = nextId rewriter;
                size_values =
                  size_values_of (getValues start_indices) (getValues limit_indices);
                ty64 = RankedTensorType [int (length size_values)] (IntegerType 64)
            in rewriter\<lparr>
                 block := take p (block rewriter)
                   @ [(n, TFConstOp start_indices),
                      (Suc n, TFConstOp (DenseIntElementsAttr ty64 size_values)),
                      (Suc (Suc n),
                       TFSliceOp ty operand (OpResult n (attrType start_indices))
                         (OpResult (Suc n) ty64))]
                   @ drop p (block rewriter),
                 insertionPoint := p + 3,
                 nextId := n + 3,
                 replacements := replacements rewriter
                   @ [(slice_op, OpResult (Suc (Suc n)) ty)]\<rparr>)"
  using assms
  by (simp add: Let_def create_def replaceOpWithNewOp_def
      setInsertionPointAfter_def getResult_def take_Suc_insert drop_Suc_insert
      take_Suc_Suc_insert drop_Suc_Suc_insert del: take_append drop_append)

lemma size_values_of_length:
  "length (size_values_of ss ls) = min (length ss) (length ls)"
  by (induction ss ls rule: size_values_of.induct) simp_all

lemma size_values_of_nth:
  "i < length ss \<Longrightarrow> i < length ls \<Longrightarrow>
   size_values_of ss ls ! i = getSExtValue (ls ! i) - getSExtValue (ss ! i)"
proof (induction ss ls arbitrary: i rule: size_values_of.induct)
  case (1 s ss l ls)
  then show ?case by (cases i) simp_all
qed simp_all

lemma unit_splat_1_1:
  "isSplat (i64_vector [1, 1]) \<and> getInt (getSplatValue (i64_vector [1, 1])) = 1"
  by (simp add: i64_vector_def getInt_def)

text \<open>
  C1. When the strides are a splat of 1, the pattern succeeds. It creates, behind the
  slice, a constant holding the start indices and a constant holding the sizes, where
  size \<open>i\<close> is limit \<open>i\<close> minus start \<open>i\<close> (in \<^verbatim>\<open>int64_t\<close>), then a \<^verbatim>\<open>tf.Slice\<close> over the
  operand and the two constants, of the result type of the slice, whose result is
  declared the replacement of the slice.
\<close>

theorem unit_stride_slice_rewrite:
  assumes "isSplat strides" and "getInt (getSplatValue strides) = 1"
  shows
    "let p = Suc (indexOf slice_op (block rewriter));
         n = nextId rewriter;
         size_values = size_values_of (getValues start_indices) (getValues limit_indices);
         start = TFConstOp start_indices;
         size_const = TFConstOp (DenseIntElementsAttr
                        (RankedTensorType [int (length size_values)] (IntegerType 64))
                        size_values);
         new_slice = TFSliceOp ty operand (getResult n start) (getResult (Suc n) size_const)
     in matchAndRewrite
          (slice_op, HloSliceOp operand start_indices limit_indices strides ty) args rewriter
        = (success,
           rewriter\<lparr>
             block := take p (block rewriter)
                        @ [(n, start), (Suc n, size_const), (Suc (Suc n), new_slice)]
                        @ drop p (block rewriter),
             insertionPoint := p + 3,
             nextId := n + 3,
             replacements := replacements rewriter
                        @ [(slice_op, getResult (Suc (Suc n)) new_slice)]\<rparr>)
        \<and> resultType new_slice
            = resultType (HloSliceOp operand start_indices limit_indices strides ty)
        \<and> length size_values
            = min (length (getValues start_indices)) (length (getValues limit_indices))
        \<and> (\<forall>i < length size_values.
              size_values ! i = getSExtValue (getValues limit_indices ! i)
                                - getSExtValue (getValues start_indices ! i))"
  using assms
  by (simp add: matchAndRewrite_unit_stride Let_def getResult_def
      size_values_of_length size_values_of_nth del: matchAndRewrite.simps)

text \<open>Scenario A: start \<open>[0, 1]\<close>, limit \<open>[4, 3]\<close>, strides \<open>[1, 1]\<close> give a \<^verbatim>\<open>tf.Slice\<close>
  with start \<open>[0, 1]\<close> and size \<open>[4, 2]\<close>.\<close>

theorem unit_stride_slice_rewrite_scenarioA:
  "isSplat (i64_vector [1, 1]) \<and> getInt (getSplatValue (i64_vector [1, 1])) = 1
   \<and> matchAndRewrite (0, scenarioA_slice [1, 1]) [scenarioA_operand]
        (function_of [scenarioA_slice [1, 1]])
     = (success,
        \<lparr>block = [(0, scenarioA_slice [1, 1]),
                  (1, TFConstOp (i64_vector [0, 1])),
                  (2, TFConstOp (i64_vector [4, 2])),
                  (3, TFSliceOp (f32_tensor [4, 2]) scenarioA_operand
                        (OpResult 1 (RankedTensorType [2] (IntegerType 64)))
                        (OpResult 2 (RankedTensorType [2] (IntegerType 64))))],
         insertionPoint = 4, nextId = 4,
         replacements = [(0, OpResult 3 (f32_tensor [4, 2]))]\<rparr>)"
  using unit_stride_slice_rewrite [of "i64_vector [1, 1]" 0
      "function_of [scenarioA_slice [1, 1]]" "i64_vector [0, 1]" "i64_vector [4, 3]"
      "f32_tensor [4, 2]" scenarioA_operand "[scenarioA_operand]"]
    unit_splat_1_1
  by (simp add: Let_def scenarioA_slice_def function_of_def i64_vector_def getResult_def
      getValues_def attrBitWidth_def del: matchAndRewrite.simps)

text \<open>
  C2. The pattern succeeds exactly when the strides are a splat whose value is 1. When
  the strides are no splat, or a splat of another value, it returns failure and the
  rewriter it was given.
\<close>

theorem unit_stride_applicable_iff:
  "(fst (matchAndRewrite (slice_op, HloSliceOp operand start_indices limit_indices strides ty)
           args rewriter) = success
      \<longleftrightarrow> isSplat strides \<and> getInt (getSplatValue strides) = 1)
   \<and> (\<not> isSplat strides \<or> getInt (getSplatValue strides) \<noteq> 1 \<longrightarrow>
        matchAndRewrite (slice_op, HloSliceOp operand start_indices limit_indices strides ty)
          args rewriter = (failure, rewriter))"
  by (simp add: Let_def split_def)

text \<open>Strides \<open>[2, 1]\<close> are no splat and strides \<open>[2, 2]\<close> are a splat of 2: both fail
  and leave the rewriter as it was; strides \<open>[1, 1]\<close> succeed.\<close>

theorem unit_stride_applicable_iff_witness:
  "\<not> isSplat (i64_vector [2, 1])
   \<and> matchAndRewrite (0, scenarioA_slice [2, 1]) [scenarioA_operand]
        (function_of [scenarioA_slice [2, 1]])
       = (failure, function_of [scenarioA_slice [2, 1]])
   \<and> isSplat (i64_vector [2, 2]) \<and> getInt (getSplatValue (i64_vector [2, 2])) = 2
   \<and> matchAndRewrite (0, scenarioA_slice [2, 2]) [scenarioA_operand]
        (function_of [scenarioA_slice [2, 2]])
       = (failure, function_of [scenarioA_slice [2, 2]])
   \<and> isSplat (i64_vector [1, 1]) \<and> getInt (getSplatValue (i64_vector [1, 1])) = 1
   \<and> fst (matchAndRewrite (0, scenarioA_slice [1, 1]) [scenarioA_operand]
        (function_of [scenarioA_slice [1, 1]])) = success"
proof -
  have a: "\<not> isSplat (i64_vector [2, 1])"
    by (simp add: i64_vector_def)
  have b: "isSplat (i64_vector [2, 2]) \<and> getInt (getSplatValue (i64_vector [2, 2])) = 2"
    by (simp add: i64_vector_def getInt_def)
  note c = unit_splat_1_1
  note t = unit_stride_applicable_iff [of 0 scenarioA_operand "i64_vector [0, 1]"
      "i64_vector [4, 3]" _ "f32_tensor [4, 2]" "[scenarioA_operand]"]
  from a t [of "i64_vector [2, 1]" "function_of [scenarioA_slice [2, 1]]"]
  have 1: "matchAndRewrite (0, scenarioA_slice [2, 1]) [scenarioA_operand]
        (function_of [scenarioA_slice [2, 1]])
       = (failure, function_of [scenarioA_slice [2, 1]])"
    unfolding scenarioA_slice_def by blast
  from b t [of "i64_vector [2, 2]" "function_of [scenarioA_slice [2, 2]]"]
  have 2: "matchAndRewrite (0, scenarioA_slice [2, 2]) [scenarioA_operand]
        (function_of [scenarioA_slice [2, 2]])
       = (failure, function_of [scenarioA_slice [2, 2]])"
    unfolding scenarioA_slice_def by simp
  from c t [of "i64_vector [1, 1]" "function_of [scenarioA_slice [1, 1]]"]
  have 3: "fst (matchAndRewrite (0, scenarioA_slice [1, 1]) [scenarioA_operand]
        (function_of [scenarioA_slice [1, 1]])) = success"
    unfolding scenarioA_slice_def by blast
  from a b c 1 2 3 show ?thesis by blast
qed

text \<open>
  C9. Whenever the pattern returns failure, the rewriter it returns is the one it was
  given: the body of the function, the insertion point and the replacements are as
  before, and no operation was created.
\<close>

theorem not_applicable_no_mutation:
  assumes "matchAndRewrite op args rewriter = (failure, rewriter')"
  shows "rewriter' = rewriter"
proof (cases op)
  case (Pair i operation)
  show ?thesis
  proof (cases operation)
    case (HloSliceOp operand start_indices limit_indices strides ty)
    show ?thesis
    proof (cases "isSplat strides \<and> getInt (getSplatValue strides) = 1")
      case True
      then have "fst (matchAndRewrite op args rewriter) = success"
        using Pair HloSliceOp
        by (simp add: matchAndRewrite_unit_stride del: matchAndRewrite.simps)
      with assms show ?thesis by simp
    next
      case False
      then have "matchAndRewrite op args rewriter = (failure, rewriter)"
        using Pair HloSliceOp by auto
      with assms show ?thesis by simp
    qed
  qed (use assms Pair in simp_all)
qed

text \<open>With strides \<open>[2, 1]\<close> the body of the function is the slice alone, as before.\<close>

theorem not_applicable_no_mutation_witness:
  "matchAndRewrite (0, scenarioA_slice [2, 1]) [scenarioA_operand]
      (function_of [scenarioA_slice [2, 1]])
     = (failure, function_of [scenarioA_slice [2, 1]])
   \<and> block (snd (matchAndRewrite (0, scenarioA_slice [2, 1]) [scenarioA_operand]
        (function_of [scenarioA_slice [2, 1]]))) = [(0, scenarioA_slice [2, 1])]"
proof -
  obtain r rw where eq: "matchAndRewrite (0, scenarioA_slice [2, 1]) [scenarioA_operand]
      (function_of [scenarioA_slice [2, 1]]) = (r, rw)"
    by (cases "matchAndRewrite (0, scenarioA_slice [2, 1]) [scenarioA_operand]
      (function_of [scenarioA_slice [2, 1]])")
  have r: "r = failure"
    using eq by (simp add: scenarioA_slice_def i64_vector_def)
  have "rw = function_of [scenarioA_slice [2, 1]]"
    using not_applicable_no_mutation [OF eq [unfolded r]] .
  with eq r show ?thesis by (simp add: function_of_def)
qed

lemma sint_sub_no_overflow:
  fixes a b :: "64 word"
  assumes "sint a < sint b" and "- (2 ^ 63) \<le> sint a - sint b"
  shows "sint (a - b) < 0"
proof -
  have "sint (a - b) = signed_take_bit 63 (sint a - sint b)"
    by (simp add: sint_word_ariths)
  also have "\<dots> = sint a - sint b"
    using assms by (intro signed_take_bit_int_eq_self) simp_all
  finally show ?thesis using assms by simp
qed

lemma sint_signed_take_bit_word:
  fixes v :: "64 word"
  assumes "n < 63"
  shows "sint (signed_take_bit n v) = signed_take_bit n (sint v)"
  by (rule bit_eqI) (use assms in \<open>auto simp add: bit_simps min_def not_le\<close>)

lemma sint_getSExtValue_bounds:
  assumes "w < 64"
  shows "- (2 ^ 62) \<le> sint (getSExtValue (APInt w v))"
    and "sint (getSExtValue (APInt w v)) < 2 ^ 62"
proof -
  from assms have w: "w - 1 < 63" "w - 1 \<le> 62"
    by simp_all
  have eq: "sint (getSExtValue (APInt w v)) = signed_take_bit (w - 1) (sint v)"
    using w(1) by (simp add: sint_signed_take_bit_word)
  have le: "(2::int) ^ (w - 1) \<le> 2 ^ 62"
    using w(2) by (intro power_increasing) simp_all
  have "- (2 ^ (w - 1)) \<le> signed_take_bit (w - 1) (sint v)"
    by (rule signed_take_bit_int_greater_eq_minus_exp)
  with le show "- (2 ^ 62) \<le> sint (getSExtValue (APInt w v))"
    unfolding eq by linarith
  have "signed_take_bit (w - 1) (sint v) < 2 ^ (w - 1)"
    by (rule signed_take_bit_int_less_exp)
  with le show "sint (getSExtValue (APInt w v)) < 2 ^ 62"
    unfolding eq by linarith
qed

lemma getValues_nth:
  "i < length (rawData a) \<Longrightarrow> getValues a ! i = APInt (attrBitWidth a) (rawData a ! i)"
  by (simp add: getValues_def)

lemma sint_sub_overflow:
  fixes a b :: "64 word"
  assumes "sint a - sint b < - (2 ^ 63)"
  shows "0 \<le> sint (a - b)"
proof -
  have "- (2 ^ 63) \<le> sint a" and "sint b < 2 ^ 63"
    using sint_ge [of a] sint_lt [of b] by simp_all
  then have low: "- (2 ^ 64) < sint a - sint b"
    by simp
  have eq: "sint (a - b) = signed_take_bit 63 (sint a - sint b)"
    by (simp add: sint_word_ariths)
  have "sint a - sint b + 2 ^ Suc 63 \<le> signed_take_bit 63 (sint a - sint b)"
    using assms by (intro signed_take_bit_int_greater_eq) simp
  then have "sint a - sint b + 2 ^ 64 \<le> signed_take_bit 63 (sint a - sint b)"
    by (simp only: power_Suc) simp
  with low show ?thesis
    unfolding eq by linarith
qed

text \<open>
  C10, as amended. With unit strides the pattern succeeds whatever the start and limit
  indices are: no comparison of limit and start is made. The size constant it creates
  has the type of a vector of 64-bit integers with one element for each pair of a start
  and a limit index, whatever the element type of the start and limit attributes is.
  Its element \<open>i\<close> is the \<^verbatim>\<open>int64_t\<close> difference of the sign-extended limit and start
  indices, which wraps around. For attributes of less than 64 bits the difference of
  the two indices is an \<^verbatim>\<open>int64_t\<close>. When the limit is less than the start, the element
  is negative exactly when the difference of the two indices is an \<^verbatim>\<open>int64_t\<close>.
\<close>

theorem slice_size_unchecked_i64:
  assumes "isSplat strides" and "getInt (getSplatValue strides) = 1"
  shows
    "let size_values = size_values_of (getValues start_indices) (getValues limit_indices);
         n = min (length (rawData start_indices)) (length (rawData limit_indices));
         size_const = TFConstOp (DenseIntElementsAttr
                         (RankedTensorType [int n] (IntegerType 64)) size_values)
     in (\<exists>rw. matchAndRewrite
                (slice_op, HloSliceOp operand start_indices limit_indices strides ty)
                args rewriter = (success, rw)
              \<and> (Suc (nextId rewriter), size_const) \<in> set (block rw))
        \<and> length size_values = n
        \<and> (\<forall>i < n.
              size_values ! i = getSExtValue (getValues limit_indices ! i)
                                - getSExtValue (getValues start_indices ! i)
              \<and> (attrBitWidth start_indices < 64 \<and> attrBitWidth limit_indices < 64
                  \<longrightarrow> - (2 ^ 63) \<le> sint (getSExtValue (getValues limit_indices ! i))
                                    - sint (getSExtValue (getValues start_indices ! i)))
              \<and> (sint (getSExtValue (getValues limit_indices ! i))
                    < sint (getSExtValue (getValues start_indices ! i))
                  \<longrightarrow> (sint (size_values ! i) < 0 \<longleftrightarrow>
                        - (2 ^ 63) \<le> sint (getSExtValue (getValues limit_indices ! i))
                                    - sint (getSExtValue (getValues start_indices ! i)))))"
proof -
  let ?s = "getValues start_indices" and ?l = "getValues limit_indices"
  let ?n = "min (length (rawData start_indices)) (length (rawData limit_indices))"
  have len: "length (size_values_of ?s ?l) = ?n"
    by (simp add: size_values_of_length getValues_def)
  have nth: "size_values_of ?s ?l ! i = getSExtValue (?l ! i) - getSExtValue (?s ! i)"
    if "i < ?n" for i
    using that by (simp add: size_values_of_nth getValues_def)
  have narrow: "- (2 ^ 63) \<le> sint (getSExtValue (?l ! i)) - sint (getSExtValue (?s ! i))"
    if "i < ?n" and "attrBitWidth start_indices < 64 \<and> attrBitWidth limit_indices < 64"
    for i
  proof -
    from that(1) have i: "i < length (rawData start_indices)" "i < length (rawData limit_indices)"
      by simp_all
    from that(2) have w: "attrBitWidth start_indices < 64" "attrBitWidth limit_indices < 64"
      by simp_all
    from sint_getSExtValue_bounds(1) [OF w(2), of "rawData limit_indices ! i"]
      sint_getSExtValue_bounds(2) [OF w(1), of "rawData start_indices ! i"]
    show ?thesis
      unfolding getValues_nth [OF i(1)] getValues_nth [OF i(2)] by simp
  qed
  have neg: "sint (size_values_of ?s ?l ! i) < 0 \<longleftrightarrow>
      - (2 ^ 63) \<le> sint (getSExtValue (?l ! i)) - sint (getSExtValue (?s ! i))"
    if "i < ?n"
      and less: "sint (getSExtValue (?l ! i)) < sint (getSExtValue (?s ! i))" for i
  proof (cases "- (2 ^ 63) \<le> sint (getSExtValue (?l ! i)) - sint (getSExtValue (?s ! i))")
    case True
    with less sint_sub_no_overflow [of "getSExtValue (?l ! i)" "getSExtValue (?s ! i)"]
    show ?thesis
      by (simp only: nth [OF that(1)])
  next
    case False
    then have "sint (getSExtValue (?l ! i)) - sint (getSExtValue (?s ! i)) < - (2 ^ 63)"
      by simp
    from sint_sub_overflow [OF this] False show ?thesis
      by (simp only: nth [OF that(1)]) simp
  qed
  obtain rw where rw: "matchAndRewrite
      (slice_op, HloSliceOp operand start_indices limit_indices strides ty) args rewriter
      = (success, rw)"
    and mem: "(Suc (nextId rewriter), TFConstOp (DenseIntElementsAttr
       (RankedTensorType [int ?n] (IntegerType 64)) (size_values_of ?s ?l))) \<in> set (block rw)"
    using matchAndRewrite_unit_stride [OF assms, of slice_op operand start_indices
        limit_indices ty args rewriter]
    by (simp add: Let_def len del: matchAndRewrite.simps)
  show ?thesis
    unfolding Let_def using rw mem len nth narrow neg by blast
qed

text \<open>Start \<open>[-1, 3]\<close> and limit \<open>[2, 1]\<close> in 32-bit attributes, in a function that has
  this slice alone: the size constant is created second, behind the slice, and holds
  \<open>[3, -2]\<close> in a vector of two 64-bit integers.\<close>

theorem slice_size_unchecked_i64_witness:
  "isSplat (i64_vector [1, 1]) \<and> getInt (getSplatValue (i64_vector [1, 1])) = 1
   \<and> block (function_of [reversed_slice_i32]) = [(0, reversed_slice_i32)]
   \<and> (\<exists>rw. matchAndRewrite (0, reversed_slice_i32) [scenarioA_operand]
              (function_of [reversed_slice_i32]) = (success, rw)
       \<and> (2, TFConstOp (DenseIntElementsAttr (RankedTensorType [2] (IntegerType 64))
                 [3, - 2])) \<in> set (block rw))
   \<and> attrBitWidth (i32_vector [0xFFFFFFFF, 3]) = 32 \<and> attrBitWidth (i32_vector [2, 1]) = 32
   \<and> sint (getSExtValue (getValues (i32_vector [2, 1]) ! 1)) = 1
   \<and> sint (getSExtValue (getValues (i32_vector [0xFFFFFFFF, 3]) ! 1)) = 3
   \<and> sint (size_values_of (getValues (i32_vector [0xFFFFFFFF, 3]))
        (getValues (i32_vector [2, 1])) ! 1) < 0"
proof -
  have sv: "size_values_of (getValues (i32_vector [0xFFFFFFFF, 3]))
      (getValues (i32_vector [2, 1])) = [3, - 2]"
    by (simp add: getValues_def i32_vector_def attrBitWidth_def)
  have w: "attrBitWidth (i32_vector [0xFFFFFFFF, 3]) = 32"
    "attrBitWidth (i32_vector [2, 1]) = 32"
    by (simp_all add: i32_vector_def attrBitWidth_def)
  have l: "sint (getSExtValue (getValues (i32_vector [2, 1]) ! 1)) = 1"
    by (simp add: getValues_def i32_vector_def attrBitWidth_def)
  have s: "sint (getSExtValue (getValues (i32_vector [0xFFFFFFFF, 3]) ! 1)) = 3"
    by (simp add: getValues_def i32_vector_def attrBitWidth_def)
  have n: "min (length (rawData (i32_vector [0xFFFFFFFF, 3])))
      (length (rawData (i32_vector [2, 1]))) = 2"
    by (simp add: i32_vector_def)
  have b: "block (function_of [reversed_slice_i32]) = [(0, reversed_slice_i32)]"
    and next_id: "Suc (nextId (function_of [reversed_slice_i32])) = 2"
    by (simp_all add: function_of_def)
  note t = slice_size_unchecked_i64 [OF unit_splat_1_1 [THEN conjunct1]
      unit_splat_1_1 [THEN conjunct2], where slice_op = 0 and operand = scenarioA_operand
      and start_indices = "i32_vector [0xFFFFFFFF, 3]" and limit_indices = "i32_vector [2, 1]"
      and ty = "UnrankedTensorType (FloatType 32)" and args = "[scenarioA_operand]"
      and rewriter = "function_of [reversed_slice_i32]",
      folded reversed_slice_i32_def, unfolded Let_def n sv next_id]
  from t have 1: "\<exists>rw. matchAndRewrite (0, reversed_slice_i32) [scenarioA_operand]
              (function_of [reversed_slice_i32]) = (success, rw)
       \<and> (2, TFConstOp (DenseIntElementsAttr (RankedTensorType [2] (IntegerType 64))
                 [3, - 2])) \<in> set (block rw)"
    by (simp del: matchAndRewrite.simps)
  from t have "sint (getSExtValue (getValues (i32_vector [2, 1]) ! 1))
        < sint (getSExtValue (getValues (i32_vector [0xFFFFFFFF, 3]) ! 1))
      \<longrightarrow> (sint ([3, - 2 :: 64 word] ! 1) < 0 \<longleftrightarrow>
            - (2 ^ 63) \<le> sint (getSExtValue (getValues (i32_vector [2, 1]) ! 1))
              - sint (getSExtValue (getValues (i32_vector [0xFFFFFFFF, 3]) ! 1)))"
    by (elim conjE allE [of _ 1]) simp
  with l s have 2: "sint ([3, - 2 :: 64 word] ! 1) < 0"
    by simp
  from 1 2 l s w b unit_splat_1_1 show ?thesis
    unfolding sv by (intro conjI) simp_all
qed

lemma unit_splat_1:
  "isSplat (i64_vector [1]) \<and> getInt (getSplatValue (i64_vector [1])) = 1"
  by (simp add: i64_vector_def getInt_def)

text \<open>
  C10, as stated, fails for start \<open>[1]\<close> and limit \<open>[-2^63]\<close> in 64-bit attributes, with
  stride 1: the pattern succeeds, the limit is below the start, and the size constant
  holds \<open>2^63 - 1\<close>, which is not negative.
\<close>

theorem slice_size_overflow_not_negative:
  "isSplat (i64_vector [1]) \<and> getInt (getSplatValue (i64_vector [1])) = 1
   \<and> block (function_of [reversed_slice_i64]) = [(0, reversed_slice_i64)]
   \<and> (\<exists>rw. matchAndRewrite (0, reversed_slice_i64) [BlockArgument 0 (f32_tensor [4])]
              (function_of [reversed_slice_i64]) = (success, rw)
       \<and> (2, TFConstOp (DenseIntElementsAttr (RankedTensorType [1] (IntegerType 64))
                 [0x7FFFFFFFFFFFFFFF])) \<in> set (block rw))
   \<and> sint (getSExtValue (getValues (i64_vector [0x8000000000000000]) ! 0))
       = - 9223372036854775808
   \<and> sint (getSExtValue (getValues (i64_vector [1]) ! 0)) = 1
   \<and> size_values_of (getValues (i64_vector [1]))
        (getValues (i64_vector [0x8000000000000000])) = [0x7FFFFFFFFFFFFFFF]
   \<and> sint (0x7FFFFFFFFFFFFFFF :: 64 word) = 9223372036854775807
   \<and> \<not> sint (size_values_of (getValues (i64_vector [1]))
          (getValues (i64_vector [0x8000000000000000])) ! 0) < 0"
proof -
  have sv: "size_values_of (getValues (i64_vector [1]))
      (getValues (i64_vector [0x8000000000000000])) = [0x7FFFFFFFFFFFFFFF]"
    by (simp add: getValues_def i64_vector_def attrBitWidth_def)
  have l: "sint (getSExtValue (getValues (i64_vector [0x8000000000000000]) ! 0))
      = - 9223372036854775808"
    by (simp add: getValues_def i64_vector_def attrBitWidth_def)
  have s: "sint (getSExtValue (getValues (i64_vector [1]) ! 0)) = 1"
    by (simp add: getValues_def i64_vector_def attrBitWidth_def)
  have v: "sint (0x7FFFFFFFFFFFFFFF :: 64 word) = 9223372036854775807"
    by simp
  have b: "block (function_of [reversed_slice_i64]) = [(0, reversed_slice_i64)]"
    by (simp add: function_of_def)
  have "\<exists>rw. matchAndRewrite (0, reversed_slice_i64) [BlockArgument 0 (f32_tensor [4])]
              (function_of [reversed_slice_i64]) = (success, rw)
       \<and> (2, TFConstOp (DenseIntElementsAttr (RankedTensorType [1] (IntegerType 64))
                 [0x7FFFFFFFFFFFFFFF])) \<in> set (block rw)"
    using matchAndRewrite_unit_stride [OF unit_splat_1 [THEN conjunct1]
      unit_splat_1 [THEN conjunct2], where slice_op = 0
      and operand = "BlockArgument 0 (f32_tensor [4])"
      and start_indices = "i64_vector [1]"
      and limit_indices = "i64_vector [0x8000000000000000]"
      and ty = "UnrankedTensorType (FloatType 32)"
      and args = "[BlockArgument 0 (f32_tensor [4])]"
      and rewriter = "function_of [reversed_slice_i64]",
      folded reversed_slice_i64_def, unfolded Let_def sv]
    by (simp add: function_of_def del: matchAndRewrite.simps)
  with sv l s v b unit_splat_1 show ?thesis
    by (intro conjI) simp_all
qed

subsection \<open>The dot conversion\<close>

lemma insert_ones_replicate: "insert_ones k shape = replicate k 1 @ shape"
  by (induction k arbitrary: shape) (simp_all add: replicate_app_Cons_same)

lemma normalize_rank_ranked:
  "normalize_rank (RankedTensorType shape e)
   = Inr (RankedTensorType (replicate (2 - length shape) 1 @ shape) e)"
  by (simp add: insert_ones_replicate)

lemma reshape_to_2d_ranked:
  assumes "getType input = RankedTensorType shape e"
  shows "reshape_to_2d (created rw ops) input =
     Inr (if 2 \<le> length shape then (input, created rw ops)
          else (OpResult (nextId rw + length ops)
                  (RankedTensorType (replicate (2 - length shape) 1 @ shape) e),
                created rw (ops @ [HloReshapeOp
                  (RankedTensorType (replicate (2 - length shape) 1 @ shape) e) input])))"
  using assms
  by (simp add: reshape_to_2d_def create_created getResult_def insert_ones_replicate)

lemma reshape_to_2d_unranked:
  "getType input = UnrankedTensorType e \<Longrightarrow> reshape_to_2d rw input = Inl NotRanked"
  by (simp add: reshape_to_2d_def)

lemma ConvertDotOp_steps:
  assumes "reshape_to_2d rw lhs = Inr (a, created rw ra)"
    and "reshape_to_2d (created rw ra) rhs = Inr (b, created rw (ra @ rb))"
    and "getType rhs = RankedTensorType sr er"
  shows "ConvertDotOp rw (old_op, HloDotOp lhs rhs (RankedTensorType so eo)) =
    (let k = nextId rw + length ra + length rb;
         mt = RankedTensorType (replicate (2 - length so) 1 @ so) eo
     in Inr (OpResult (Suc k) (RankedTensorType so eo),
             created rw (ra @ rb @ [TFMatMulOp mt a b False (length sr = 1),
                                    HloReshapeOp (RankedTensorType so eo) (OpResult k mt)])))"
proof -
  let ?mt = "RankedTensorType (replicate (2 - length so) 1 @ so) eo"
  have 3: "create (created rw (ra @ rb)) (TFMatMulOp ?mt a b False tb)
      = (OpResult (nextId rw + length ra + length rb) ?mt,
         created rw (ra @ rb @ [TFMatMulOp ?mt a b False tb]))" for tb
    using create_created [of rw "ra @ rb" "TFMatMulOp ?mt a b False tb"]
    by (simp add: getResult_def)
  have 4: "create (created rw (ra @ rb @ [mm])) (HloReshapeOp (RankedTensorType so eo) v)
      = (OpResult (Suc (nextId rw + length ra + length rb)) (RankedTensorType so eo),
         created rw (ra @ rb @ [mm, HloReshapeOp (RankedTensorType so eo) v]))" for v mm
    using create_created [of rw "ra @ rb @ [mm]" "HloReshapeOp (RankedTensorType so eo) v"]
    by (simp add: getResult_def)
  show ?thesis
    by (simp add: assms normalize_rank_ranked 3 4 Let_def del: normalize_rank.simps)
qed

lemma ConvertDotOp_ranked:
  assumes "getType lhs = RankedTensorType sl el" and "getType rhs = RankedTensorType sr er"
  shows "ConvertDotOp rw (old_op, HloDotOp lhs rhs (RankedTensorType so eo)) =
    (let n = nextId rw;
         tl = RankedTensorType (replicate (2 - length sl) 1 @ sl) el;
         tr = RankedTensorType (replicate (2 - length sr) 1 @ sr) er;
         ra = (if 2 \<le> length sl then [] else [HloReshapeOp tl lhs]);
         a = (if 2 \<le> length sl then lhs else OpResult n tl);
         rb = (if 2 \<le> length sr then [] else [HloReshapeOp tr rhs]);
         b = (if 2 \<le> length sr then rhs else OpResult (n + length ra) tr);
         k = n + length ra + length rb;
         mt = RankedTensorType (replicate (2 - length so) 1 @ so) eo
     in Inr (OpResult (Suc k) (RankedTensorType so eo),
             created rw (ra @ rb @ [TFMatMulOp mt a b False (length sr = 1),
                                    HloReshapeOp (RankedTensorType so eo) (OpResult k mt)])))"
proof -
  let ?tl = "RankedTensorType (replicate (2 - length sl) 1 @ sl) el"
  let ?tr = "RankedTensorType (replicate (2 - length sr) 1 @ sr) er"
  let ?ra = "if 2 \<le> length sl then [] else [HloReshapeOp ?tl lhs]"
  let ?a = "if 2 \<le> length sl then lhs else OpResult (nextId rw) ?tl"
  let ?rb = "if 2 \<le> length sr then [] else [HloReshapeOp ?tr rhs]"
  let ?b = "if 2 \<le> length sr then rhs else OpResult (nextId rw + length ?ra) ?tr"
  have 1: "reshape_to_2d rw lhs = Inr (?a, created rw ?ra)"
    using reshape_to_2d_ranked [OF assms(1), of rw "[]"] by simp
  have 2: "reshape_to_2d (created rw ?ra) rhs = Inr (?b, created rw (?ra @ ?rb))"
    using reshape_to_2d_ranked [OF assms(2), of rw ?ra] by simp
  show ?thesis
    using ConvertDotOp_steps [OF 1 2 assms(2), of old_op so eo]
    unfolding Let_def .
qed

lemma ConvertDotOp_Inr_ranked:
  assumes "ConvertDotOp rw (old_op, op) = Inr r"
  shows "\<exists>lhs rhs sl el sr er so eo. op = HloDotOp lhs rhs (RankedTensorType so eo)
     \<and> getType lhs = RankedTensorType sl el \<and> getType rhs = RankedTensorType sr er"
proof (cases op)
  case (HloDotOp lhs rhs out)
  have l: "\<exists>sl el. getType lhs = RankedTensorType sl el"
    using assms HloDotOp by (cases "getType lhs") (simp_all add: reshape_to_2d_unranked)
  have r: "\<exists>sr er. getType rhs = RankedTensorType sr er"
    using assms HloDotOp
    by (cases "getType rhs") (auto split: sum.splits)
  have out: "\<exists>so eo. out = RankedTensorType so eo"
    using assms HloDotOp
    by (cases out) (auto split: sum.splits)
  from l r out HloDotOp show ?thesis by blast
qed (use assms in simp_all)

text \<open>
  C3. In \<^verbatim>\<open>ConvertDotOp\<close> an operand of rank 0 or 1 is replaced by the result of a new
  reshape to the shape with leading dimensions of size 1 put in front until the rank is
  2 (shape \<open>[d]\<close> becomes \<open>[1, d]\<close>, shape \<open>[]\<close> becomes \<open>[1, 1]\<close>); an operand of rank 2
  or more is passed to the matrix multiplication as it is, and no reshape is created
  for it. The reshape of the left operand, when there is one, is created first.
\<close>

theorem low_rank_operands_reshaped:
  assumes "getType lhs = RankedTensorType sl el" and "getType rhs = RankedTensorType sr er"
  shows
    "let n = nextId rw;
         to_2d = (\<lambda>shape. replicate (2 - length shape) 1 @ shape);
         ra = (if length sl < 2 then [HloReshapeOp (RankedTensorType (to_2d sl) el) lhs]
               else []);
         a = (if length sl < 2 then OpResult n (RankedTensorType (to_2d sl) el) else lhs);
         rb = (if length sr < 2 then [HloReshapeOp (RankedTensorType (to_2d sr) er) rhs]
               else []);
         b = (if length sr < 2 then OpResult (n + length ra) (RankedTensorType (to_2d sr) er)
              else rhs)
     in (\<exists>v mt tb out_reshape.
           ConvertDotOp rw (old_op, HloDotOp lhs rhs (RankedTensorType so eo))
           = Inr (v, created rw (ra @ rb @ [TFMatMulOp mt a b False tb, out_reshape])))
        \<and> reshape_to_2d rw lhs = Inr (a, created rw ra)
        \<and> reshape_to_2d (created rw ra) rhs = Inr (b, created rw (ra @ rb))
        \<and> (length sl < 2 \<longrightarrow> length (to_2d sl) = 2)
        \<and> (length sr < 2 \<longrightarrow> length (to_2d sr) = 2)
        \<and> (\<forall>d. to_2d [d] = [1, d]) \<and> to_2d [] = [1, 1]"
proof -
  have 1: "2 \<le> length s \<longleftrightarrow> \<not> length s < 2" for s :: "int list"
    by auto
  have dot: "\<exists>v mt tb out_reshape.
      ConvertDotOp rw (old_op, HloDotOp lhs rhs (RankedTensorType so eo))
      = Inr (v, created rw
          ((if length sl < 2
            then [HloReshapeOp (RankedTensorType (replicate (2 - length sl) 1 @ sl) el) lhs]
            else [])
           @ (if length sr < 2
            then [HloReshapeOp (RankedTensorType (replicate (2 - length sr) 1 @ sr) er) rhs]
            else [])
           @ [TFMatMulOp mt
               (if length sl < 2
                then OpResult (nextId rw)
                   (RankedTensorType (replicate (2 - length sl) 1 @ sl) el) else lhs)
               (if length sr < 2
                then OpResult (nextId rw + length (if length sl < 2
                   then [HloReshapeOp (RankedTensorType (replicate (2 - length sl) 1 @ sl) el)
                     lhs] else []))
                   (RankedTensorType (replicate (2 - length sr) 1 @ sr) er) else rhs)
               False tb, out_reshape]))"
    unfolding ConvertDotOp_ranked [OF assms] Let_def 1 by (simp cong: if_cong) blast
  have l: "reshape_to_2d rw lhs
      = Inr (if length sl < 2
             then OpResult (nextId rw) (RankedTensorType (replicate (2 - length sl) 1 @ sl) el)
             else lhs,
             created rw (if length sl < 2
               then [HloReshapeOp (RankedTensorType (replicate (2 - length sl) 1 @ sl) el) lhs]
               else []))"
    using reshape_to_2d_ranked [OF assms(1), of rw "[]"] by (simp add: 1)
  have r: "reshape_to_2d (created rw ra) rhs
      = Inr (if length sr < 2
             then OpResult (nextId rw + length ra)
               (RankedTensorType (replicate (2 - length sr) 1 @ sr) er)
             else rhs,
             created rw (ra @ (if length sr < 2
               then [HloReshapeOp (RankedTensorType (replicate (2 - length sr) 1 @ sr) er) rhs]
               else [])))" for ra
    using reshape_to_2d_ranked [OF assms(2), of rw ra] by (simp add: 1)
  have len: "length s < 2 \<Longrightarrow> length (replicate (2 - length s) 1 @ s) = 2"
    for s :: "int list"
    by simp
  show ?thesis
    unfolding Let_def
  proof (intro conjI)
    show "\<forall>d::int. replicate (2 - length [d]) 1 @ [d] = [1, d]"
      by simp
    show "replicate (2 - length []) 1 @ [] = [1, 1::int]"
      by (simp add: numeral_2_eq_2)
  qed (rule dot l r | simp)+
qed

lemma scenarioB_types:
  "getType (BlockArgument 0 (f32_tensor [8])) = RankedTensorType [8] (FloatType 32)"
  "getType (BlockArgument 1 (f32_tensor [8])) = RankedTensorType [8] (FloatType 32)"
  by (simp_all add: f32_tensor_def)

lemma scenarioC_types:
  "getType (BlockArgument 0 (f32_tensor [3, 4])) = RankedTensorType [3, 4] (FloatType 32)"
  "getType (BlockArgument 1 (f32_tensor [4, 5])) = RankedTensorType [4, 5] (FloatType 32)"
  by (simp_all add: f32_tensor_def)

text \<open>Scenario B: both operands of shape \<open>[8]\<close> are reshaped to \<open>[1, 8]\<close>.\<close>

theorem low_rank_operands_reshaped_scenarioB:
  "\<exists>v mt tb out_reshape.
     ConvertDotOp (function_of [scenarioB_dot]) (0, scenarioB_dot)
     = Inr (v, created (function_of [scenarioB_dot])
         [HloReshapeOp (f32_tensor [1, 8]) (BlockArgument 0 (f32_tensor [8])),
          HloReshapeOp (f32_tensor [1, 8]) (BlockArgument 1 (f32_tensor [8])),
          TFMatMulOp mt (OpResult 1 (f32_tensor [1, 8])) (OpResult 2 (f32_tensor [1, 8]))
            False tb,
          out_reshape])"
  using low_rank_operands_reshaped [OF scenarioB_types,
      where rw = "function_of [scenarioB_dot]" and old_op = 0 and so = "[]"
        and eo = "FloatType 32"]
  by (simp add: Let_def scenarioB_dot_def f32_tensor_def function_of_def numeral_2_eq_2
      del: ConvertDotOp.simps)

lemma reshape_to_2d_created:
  assumes "getType input = RankedTensorType shape e"
  shows "\<exists>v rs. reshape_to_2d (created rw ops) input = Inr (v, created rw (ops @ rs))
     \<and> (\<forall>r \<in> set rs. \<exists>ty x. r = HloReshapeOp ty x)"
proof (cases "2 \<le> length shape")
  case True
  then have "reshape_to_2d (created rw ops) input = Inr (input, created rw (ops @ []))"
    by (simp add: reshape_to_2d_ranked [OF assms])
  then show ?thesis by fastforce
next
  case False
  let ?r = "HloReshapeOp (RankedTensorType (replicate (2 - length shape) 1 @ shape) e) input"
  from False have "reshape_to_2d (created rw ops) input
      = Inr (OpResult (nextId rw + length ops)
               (RankedTensorType (replicate (2 - length shape) 1 @ shape) e),
             created rw (ops @ [?r]))"
    by (simp add: reshape_to_2d_ranked [OF assms])
  moreover have "\<forall>r \<in> set [?r]. \<exists>ty x. r = HloReshapeOp ty x"
    by simp
  ultimately show ?thesis by blast
qed

lemma ConvertDotOp_Inr_created:
  assumes "ConvertDotOp rw (old_op, op) = Inr (v, rw')"
  shows "\<exists>lhs rhs so eo reshapes a b.
     op = HloDotOp lhs rhs (RankedTensorType so eo)
     \<and> (\<forall>r \<in> set reshapes. \<exists>ty x. r = HloReshapeOp ty x)
     \<and> rw' = created rw (reshapes @
         [TFMatMulOp (RankedTensorType (replicate (2 - length so) 1 @ so) eo) a b False
            (getRank (getType rhs) = Inr 1),
          HloReshapeOp (RankedTensorType so eo)
            (OpResult (nextId rw + length reshapes)
               (RankedTensorType (replicate (2 - length so) 1 @ so) eo))])
     \<and> v = OpResult (Suc (nextId rw + length reshapes)) (RankedTensorType so eo)"
proof -
  obtain lhs rhs sl el sr er so eo where op: "op = HloDotOp lhs rhs (RankedTensorType so eo)"
    and ty: "getType lhs = RankedTensorType sl el" "getType rhs = RankedTensorType sr er"
    using ConvertDotOp_Inr_ranked [OF assms] by blast
  obtain a ra where 1: "reshape_to_2d rw lhs = Inr (a, created rw ra)"
    and ra: "\<forall>r \<in> set ra. \<exists>ty x. r = HloReshapeOp ty x"
    using reshape_to_2d_created [OF ty(1), of rw "[]"] by auto
  obtain b rb where 2: "reshape_to_2d (created rw ra) rhs = Inr (b, created rw (ra @ rb))"
    and rb: "\<forall>r \<in> set rb. \<exists>ty x. r = HloReshapeOp ty x"
    using reshape_to_2d_created [OF ty(2), of rw ra] by auto
  have rk: "(getRank (getType rhs) = Inr 1) = (length sr = 1)"
    by (simp add: ty)
  from assms have "v = OpResult (Suc (nextId rw + length (ra @ rb))) (RankedTensorType so eo)"
    and "rw' = created rw ((ra @ rb) @
         [TFMatMulOp (RankedTensorType (replicate (2 - length so) 1 @ so) eo) a b False
            (getRank (getType rhs) = Inr 1),
          HloReshapeOp (RankedTensorType so eo)
            (OpResult (nextId rw + length (ra @ rb))
               (RankedTensorType (replicate (2 - length so) 1 @ so) eo))])"
    unfolding op ConvertDotOp_steps [OF 1 2 ty(2)] Let_def rk
    by (simp_all add: add.assoc)
  moreover have "\<forall>r \<in> set (ra @ rb). \<exists>ty x. r = HloReshapeOp ty x"
    using ra rb by auto
  ultimately show ?thesis
    using op by blast
qed

text \<open>
  C4. Whenever \<^verbatim>\<open>ConvertDotOp\<close> returns, the operations it created are reshapes, then
  one \<^verbatim>\<open>tf.MatMul\<close>, then the reshape of the output. The \<^verbatim>\<open>tf.MatMul\<close> has
  \<^verbatim>\<open>transpose_a\<close> false, and its \<^verbatim>\<open>transpose_b\<close> is true exactly when the right operand
  of the dot, as it was given, has rank 1.
\<close>

theorem transpose_b_iff_rhs_rank_1:
  assumes "ConvertDotOp rw (old_op, HloDotOp lhs rhs output_type) = Inr (v, rw')"
  shows "\<exists>reshapes mt a b product.
     rw' = created rw (reshapes @
             [TFMatMulOp mt a b False (getRank (getType rhs) = Inr 1),
              HloReshapeOp output_type product])
     \<and> (\<forall>op \<in> set reshapes. \<exists>ty x. op = HloReshapeOp ty x)"
  using ConvertDotOp_Inr_created [OF assms] by blast

text \<open>Scenario B has \<^verbatim>\<open>transpose_b\<close> true, scenario C has it false.\<close>

theorem transpose_b_iff_rhs_rank_1_witness:
  "(\<exists>v rw'. ConvertDotOp (function_of [scenarioB_dot]) (0, scenarioB_dot) = Inr (v, rw')
      \<and> (\<exists>reshapes mt a b product.
           rw' = created (function_of [scenarioB_dot])
                   (reshapes @ [TFMatMulOp mt a b False True,
                                HloReshapeOp (f32_tensor []) product])))
   \<and> (\<exists>v rw'. ConvertDotOp (function_of [scenarioC_dot]) (0, scenarioC_dot) = Inr (v, rw')
      \<and> (\<exists>reshapes mt a b product.
           rw' = created (function_of [scenarioC_dot])
                   (reshapes @ [TFMatMulOp mt a b False False,
                                HloReshapeOp (f32_tensor [3, 5]) product])))"
proof -
  obtain vB rwB where B: "ConvertDotOp (function_of [scenarioB_dot])
      (0, HloDotOp (BlockArgument 0 (f32_tensor [8])) (BlockArgument 1 (f32_tensor [8]))
         (f32_tensor [])) = Inr (vB, rwB)"
    unfolding f32_tensor_def [of "[]"] ConvertDotOp_ranked [OF scenarioB_types] Let_def
    by simp
  obtain vC rwC where C: "ConvertDotOp (function_of [scenarioC_dot])
      (0, HloDotOp (BlockArgument 0 (f32_tensor [3, 4])) (BlockArgument 1 (f32_tensor [4, 5]))
         (f32_tensor [3, 5])) = Inr (vC, rwC)"
    unfolding f32_tensor_def [of "[3, 5]"] ConvertDotOp_ranked [OF scenarioC_types] Let_def
    by simp
  have rB: "(getRank (getType (BlockArgument 1 (f32_tensor [8]))) = Inr 1) = True"
    by (simp add: f32_tensor_def)
  have rC: "(getRank (getType (BlockArgument 1 (f32_tensor [4, 5]))) = Inr 1) = False"
    by (simp add: f32_tensor_def)
  from transpose_b_iff_rhs_rank_1 [OF B] transpose_b_iff_rhs_rank_1 [OF C] B C
  show ?thesis
    unfolding rB rC scenarioB_dot_def scenarioC_dot_def by blast
qed

text \<open>
  C5, as amended. For a dot of two operands of rank 2 with a result of rank 2,
  \<^verbatim>\<open>ConvertDotOp\<close> creates no reshape of an operand. It creates two operations: the
  \<^verbatim>\<open>tf.MatMul\<close> of the two operands as they are, with \<^verbatim>\<open>transpose_b\<close> false and the
  result type of the dot, and one reshape of the product to that same type, whose
  result it returns.
\<close>

theorem rank2_dot_rewrite:
  assumes "getType lhs = RankedTensorType [m, k] el"
    and "getType rhs = RankedTensorType [k', n] er"
  shows "ConvertDotOp rw (old_op, HloDotOp lhs rhs (RankedTensorType [m, n] eo))
    = Inr (OpResult (nextId rw + 1) (RankedTensorType [m, n] eo),
           created rw
             [TFMatMulOp (RankedTensorType [m, n] eo) lhs rhs False False,
              HloReshapeOp (RankedTensorType [m, n] eo)
                (OpResult (nextId rw) (RankedTensorType [m, n] eo))])"
  unfolding ConvertDotOp_ranked [OF assms] Let_def by simp

text \<open>Scenario C: the \<^verbatim>\<open>tf.MatMul\<close> of type \<open>[3, 5]\<close> and the reshape of its product.\<close>

theorem rank2_dot_rewrite_scenarioC:
  "ConvertDotOp (function_of [scenarioC_dot]) (0, scenarioC_dot)
   = Inr (OpResult 2 (f32_tensor [3, 5]),
          created (function_of [scenarioC_dot])
            [TFMatMulOp (f32_tensor [3, 5]) (BlockArgument 0 (f32_tensor [3, 4]))
               (BlockArgument 1 (f32_tensor [4, 5])) False False,
             HloReshapeOp (f32_tensor [3, 5]) (OpResult 1 (f32_tensor [3, 5]))])"
  using rank2_dot_rewrite [OF scenarioC_types, where rw = "function_of [scenarioC_dot]"
      and old_op = 0 and eo = "FloatType 32"]
  by (simp add: scenarioC_dot_def f32_tensor_def function_of_def del: ConvertDotOp.simps)

text \<open>
  C5, as stated, fails in scenario C: for operands of shapes \<open>[3, 4]\<close> and \<open>[4, 5]\<close> the
  body of the function holds, after \<^verbatim>\<open>ConvertDotOp\<close>, the \<^verbatim>\<open>tf.MatMul\<close> and a reshape of
  its product from \<open>[3, 5]\<close> to \<open>[3, 5]\<close>.
\<close>

theorem scenarioC_output_reshape_emitted:
  "ConvertDotOp (function_of [scenarioC_dot]) (0, scenarioC_dot)
   = Inr (OpResult 2 (f32_tensor [3, 5]),
          \<lparr>block =
             [(1, TFMatMulOp (f32_tensor [3, 5]) (BlockArgument 0 (f32_tensor [3, 4]))
                    (BlockArgument 1 (f32_tensor [4, 5])) False False),
              (2, HloReshapeOp (f32_tensor [3, 5]) (OpResult 1 (f32_tensor [3, 5]))),
              (0, scenarioC_dot)],
           insertionPoint = 2, nextId = 3, replacements = []\<rparr>)"
  by (simp add: scenarioC_dot_def f32_tensor_def function_of_def reshape_to_2d_def
      create_def getResult_def)

text \<open>
  C6. Whenever \<^verbatim>\<open>ConvertDotOp\<close> returns a value, the type of that value is the result
  type of the dot. The value is the result of the last operation created, a reshape to
  that type of the product of the \<^verbatim>\<open>tf.MatMul\<close>, whose own type is the result type
  normalized to rank 2.
\<close>

theorem result_type_preserved:
  assumes "ConvertDotOp rw (old_op, op) = Inr (v, rw')"
  shows "getType v = resultType op
    \<and> (\<exists>ops mt a b tb.
         normalize_rank (resultType op) = Inr mt
         \<and> rw' = created rw (ops @ [TFMatMulOp mt a b False tb,
                   HloReshapeOp (resultType op) (OpResult (nextId rw + length ops) mt)])
         \<and> v = getResult (nextId rw + length ops + 1)
                 (HloReshapeOp (resultType op) (OpResult (nextId rw + length ops) mt)))"
proof -
  obtain lhs rhs so eo reshapes a b where op: "op = HloDotOp lhs rhs (RankedTensorType so eo)"
    and rw': "rw' = created rw (reshapes @
         [TFMatMulOp (RankedTensorType (replicate (2 - length so) 1 @ so) eo) a b False
            (getRank (getType rhs) = Inr 1),
          HloReshapeOp (RankedTensorType so eo)
            (OpResult (nextId rw + length reshapes)
               (RankedTensorType (replicate (2 - length so) 1 @ so) eo))])"
    and v: "v = OpResult (Suc (nextId rw + length reshapes)) (RankedTensorType so eo)"
    using ConvertDotOp_Inr_created [OF assms] by blast
  have n: "normalize_rank (resultType op)
      = Inr (RankedTensorType (replicate (2 - length so) 1 @ so) eo)"
    unfolding op by (simp add: normalize_rank_ranked del: normalize_rank.simps)
  have t: "getType v = resultType op"
    by (simp add: v op)
  have r: "resultType op = RankedTensorType so eo"
    by (simp add: op)
  have g: "v = getResult (nextId rw + length reshapes + 1)
      (HloReshapeOp (resultType op) (OpResult (nextId rw + length reshapes)
         (RankedTensorType (replicate (2 - length so) 1 @ so) eo)))"
    by (simp add: v op getResult_def)
  from n rw' g t show ?thesis
    unfolding r by blast
qed

text \<open>Scenario B: the value returned is a scalar, the product has shape \<open>[1, 1]\<close>.\<close>

theorem result_type_preserved_scenarioB:
  "(\<exists>v rw'. ConvertDotOp (function_of [scenarioB_dot]) (0, scenarioB_dot) = Inr (v, rw')
      \<and> getType v = f32_tensor []
      \<and> normalize_rank (f32_tensor []) = Inr (f32_tensor [1, 1]))"
proof -
  obtain vB rwB where B: "ConvertDotOp (function_of [scenarioB_dot]) (0, scenarioB_dot)
      = Inr (vB, rwB)"
    unfolding scenarioB_dot_def f32_tensor_def [of "[]"]
      ConvertDotOp_ranked [OF scenarioB_types] Let_def
    by simp
  have "normalize_rank (f32_tensor []) = Inr (f32_tensor [1, 1])"
    by (simp add: f32_tensor_def numeral_2_eq_2)
  with result_type_preserved [OF B] B show ?thesis
    by (auto simp add: scenarioB_dot_def)
qed

subsection \<open>The legality target and the pass\<close>

lemma getName_mapOperands [simp]: "getName (mapOperands f op) = getName op"
  by (cases op) simp_all

lemma isLegal_mapOperands [simp]: "isLegal t (mapOperands f op) = isLegal t op"
  by (simp add: isLegal_def)

lemma mapOperands_comp: "mapOperands g (mapOperands f op) = mapOperands (g \<circ> f) op"
  by (cases op) simp_all

lemma mapOperands_id: "mapOperands (\<lambda>v. v) op = op"
  by (cases op) simp_all

lemma tryPatterns_preserves:
  assumes "\<forall>p \<in> set ps. preservesOps p" and "wellFormed rw"
    and "tryPatterns ps op rw = Some rw'"
  shows "wellFormed rw' \<and> nextId rw \<le> nextId rw'
    \<and> (\<forall>j < nextId rw. map_of (block rw') j = map_of (block rw) j)"
  using assms
proof (induction ps)
  case Nil
  then show ?case by simp
next
  case (Cons p ps)
  obtain r rw1 where p: "p op rw = (r, rw1)"
    by (cases "p op rw")
  show ?case
  proof (cases r)
    case success
    with Cons.prems p have "rw1 = rw'" and "preservesOps p"
      by simp_all
    with p success Cons.prems(2) show ?thesis
      unfolding preservesOps_def by blast
  next
    case failure
    with Cons p show ?thesis by simp
  qed
qed

lemma tryPatterns_stuck:
  assumes "\<forall>p \<in> set ps. fst (p op rw) = failure"
  shows "tryPatterns ps op rw = None"
  using assms
proof (induction ps)
  case (Cons p ps)
  then show ?case by (cases "p op rw") auto
qed simp

text \<open>What \<open>commit\<close> leaves: the operation is gone and the operands of the others went
  through one function.\<close>

lemma commit_block:
  assumes "commit (i, op) rw = Some rw'"
  shows "\<exists>g. rw' = rw\<lparr>block := filter (\<lambda>(k, op). k \<noteq> i)
      (map (\<lambda>(k, op). (k, mapOperands g op)) (block rw))\<rparr>"
proof (cases "map_of (rev (replacements rw)) i")
  case None
  have "map (\<lambda>(k, op). (k, mapOperands (\<lambda>v. v) op)) (block rw) = block rw"
    by (induction "block rw") (auto simp add: mapOperands_id map_idI)
  with None assms have "rw' = rw\<lparr>block := filter (\<lambda>(k, op). k \<noteq> i)
      (map (\<lambda>(k, op). (k, mapOperands (\<lambda>v. v) op)) (block rw))\<rparr>"
    by (simp add: commit_def eraseOp_def)
  then show ?thesis by blast
next
  case (Some v)
  with assms have "rw' = rw\<lparr>block := filter (\<lambda>(k, op). k \<noteq> i)
      (map (\<lambda>(k, op). (k, mapOperands (replaceUse i v) op)) (block rw))\<rparr>"
    by (simp add: commit_def eraseOp_def replaceAllUsesWith_def split: if_splits)
  then show ?thesis by blast
qed

lemma map_of_erase:
  "j \<noteq> i \<Longrightarrow> map_of (filter (\<lambda>(k, op). k \<noteq> i) b) j = map_of b j"
  by (induction b) auto

lemma map_of_replace:
  "map_of (map (\<lambda>(k, op). (k, h op)) b) j = map_option h (map_of b j)"
  by (induction b) auto

lemma map_fst_replace: "map fst (map (\<lambda>(k, op). (k, h op)) b) = map fst b"
  by (induction b) auto

lemma map_fst_erase:
  "map fst (filter (\<lambda>(k, op). k \<noteq> i) b) = filter (\<lambda>k. k \<noteq> i) (map fst b)"
  by (induction b) auto

lemma commit_preserves:
  assumes "commit (i, op) rw = Some rw'"
  shows "nextId rw' = nextId rw"
    and "wellFormed rw \<Longrightarrow> wellFormed rw'"
    and "map_of (block rw') i = None"
    and "j \<noteq> i \<Longrightarrow> \<exists>g. map_of (block rw') j = map_option (mapOperands g) (map_of (block rw) j)"
    and "set (map fst (block rw')) = set (map fst (block rw)) - {i}"
proof -
  from commit_block [OF assms] obtain g where
    rw': "rw' = rw\<lparr>block := filter (\<lambda>(k, op). k \<noteq> i)
      (map (\<lambda>(k, op). (k, mapOperands g op)) (block rw))\<rparr>"
    by blast
  show "nextId rw' = nextId rw"
    by (simp add: rw')
  have keys: "map fst (block rw') = filter (\<lambda>k. k \<noteq> i) (map fst (block rw))"
    by (simp add: rw' map_fst_erase map_fst_replace del: map_map)
  show "set (map fst (block rw')) = set (map fst (block rw)) - {i}"
    unfolding keys by auto
  show "wellFormed rw'" if "wellFormed rw"
    using that unfolding wellFormed_def keys by (auto simp add: rw')
  show "map_of (block rw') i = None"
  proof -
    have "i \<notin> set (map fst (block rw'))"
      unfolding keys by simp
    then show ?thesis
      by (simp add: map_of_eq_None_iff)
  qed
  show "\<exists>g. map_of (block rw') j = map_option (mapOperands g) (map_of (block rw) j)"
    if "j \<noteq> i"
    using that by (auto simp add: rw' map_of_erase map_of_replace)
qed

text \<open>One rewrite of the driver: a pattern applied to the operation \<open>i\<close> and the
  replacement was committed.\<close>

lemma rewrite_step:
  assumes wb: "\<forall>p \<in> set ps. preservesOps p" and wf: "wellFormed rw"
    and tried: "tryPatterns ps (i, op) rw = Some rw1"
    and committed: "commit (i, op) rw1 = Some rw2"
  shows "wellFormed rw2" and "nextId rw \<le> nextId rw2"
    and "map_of (block rw2) j = Some op2 \<Longrightarrow>
      j \<noteq> i \<and> (\<exists>g op1. op2 = mapOperands g op1 \<and> map_of (block rw1) j = Some op1
        \<and> (j < nextId rw \<longrightarrow> map_of (block rw) j = Some op1)
        \<and> (nextId rw \<le> j \<longrightarrow> j \<in> set (newOps rw rw2)))"
    and "j \<noteq> i \<Longrightarrow> j < nextId rw \<Longrightarrow>
      \<exists>g. map_of (block rw2) j = map_option (mapOperands g) (map_of (block rw) j)"
proof -
  note t = tryPatterns_preserves [OF wb wf tried]
  note c = commit_preserves [OF committed]
  from t c(2) show "wellFormed rw2" by blast
  from t c(1) show "nextId rw \<le> nextId rw2" by simp
  show "\<exists>g. map_of (block rw2) j = map_option (mapOperands g) (map_of (block rw) j)"
    if "j \<noteq> i" "j < nextId rw"
    using c(4) [OF that(1)] t that(2) by simp
  show "j \<noteq> i \<and> (\<exists>g op1. op2 = mapOperands g op1 \<and> map_of (block rw1) j = Some op1
        \<and> (j < nextId rw \<longrightarrow> map_of (block rw) j = Some op1)
        \<and> (nextId rw \<le> j \<longrightarrow> j \<in> set (newOps rw rw2)))"
    if look: "map_of (block rw2) j = Some op2"
  proof -
    from look c(3) have ji: "j \<noteq> i" by auto
    from c(4) [OF ji] look obtain g op1 where op1: "op2 = mapOperands g op1"
      "map_of (block rw1) j = Some op1"
      by (cases "map_of (block rw1) j") auto
    from look have "j \<in> set (map fst (block rw2))"
      by (metis map_of_eq_None_iff option.distinct(1) set_map)
    then have "nextId rw \<le> j \<longrightarrow> j \<in> set (newOps rw rw2)"
      by (simp add: newOps_def)
    moreover from t op1(2) have "j < nextId rw \<longrightarrow> map_of (block rw) j = Some op1"
      by metis
    ultimately show ?thesis
      using ji op1 by blast
  qed
qed

lemma convertOperations_stuck:
  assumes wb: "\<forall>p \<in> set ps. preservesOps p"
    and stuck: "\<forall>p \<in> set ps. \<forall>f rw. fst (p (i, mapOperands f op) rw) = failure"
    and illegal: "\<not> isLegal t op"
  shows "wellFormed rw \<Longrightarrow> map_of (block rw) i = Some (mapOperands f op) \<Longrightarrow>
    i \<in> set wl \<Longrightarrow> length wl < fuel \<Longrightarrow>
    \<exists>rw' g. convertOperations fuel t ps (wl @ extra) rw = Some (failure, rw')
      \<and> map_of (block rw') i = Some (mapOperands g op)"
proof (induction wl arbitrary: rw f fuel extra)
  case Nil
  then show ?case by simp
next
  case (Cons j wl)
  from Cons.prems(4) obtain n where fuel: "fuel = Suc n" and n: "length wl < n"
    by (cases fuel) auto
  have none: "tryPatterns ps (i, mapOperands f op) rw = None"
    using stuck by (intro tryPatterns_stuck) blast
  have ilt: "i < nextId rw"
  proof -
    from Cons.prems(2) have "i \<in> set (map fst (block rw))"
      by (metis map_of_eq_None_iff option.distinct(1) set_map)
    with Cons.prems(1) show ?thesis
      unfolding wellFormed_def by blast
  qed
  show ?case
  proof (cases "j = i")
    case True
    with Cons.prems(2) illegal none show ?thesis
      by (auto simp add: fuel)
  next
    case False
    with Cons.prems(3) have iwl: "i \<in> set wl"
      by simp
    note IH = Cons.IH [OF _ _ iwl n]
    show ?thesis
    proof (cases "map_of (block rw) j")
      case None
      with IH [OF Cons.prems(1,2), of extra] show ?thesis
        by (simp add: fuel)
    next
      case (Some oj)
      show ?thesis
      proof (cases "isLegal t oj")
        case True
        with Some IH [OF Cons.prems(1,2), of extra] show ?thesis
          by (simp add: fuel)
      next
        case illegal_j: False
        show ?thesis
        proof (cases "tryPatterns ps (j, oj) rw")
          case None
          with Some illegal_j Cons.prems(2) show ?thesis
            by (auto simp add: fuel)
        next
          case tried: (Some rw1)
          show ?thesis
          proof (cases "commit (j, oj) rw1")
            case None
            with Some illegal_j tried Cons.prems(2) show ?thesis
              by (auto simp add: fuel)
          next
            case committed: (Some rw2)
            note step = rewrite_step [OF wb Cons.prems(1) tried committed]
            from step(4) [of i] False ilt Cons.prems(2)
            obtain g where "map_of (block rw2) i = Some (mapOperands g (mapOperands f op))"
              by auto
            then have 4: "map_of (block rw2) i = Some (mapOperands (g \<circ> f) op)"
              by (simp add: mapOperands_comp)
            from IH [OF step(1) 4, of "extra @ newOps rw rw2"] Some illegal_j tried committed
            show ?thesis
              by (simp add: fuel)
          qed
        qed
      qed
    qed
  qed
qed

lemma convertOperations_failure_illegal:
  "convertOperations fuel t ps wl rw = Some (failure, rw') \<Longrightarrow>
   \<exists>i op. map_of (block rw') i = Some op \<and> \<not> isLegal t op"
proof (induction fuel t ps wl rw rule: convertOperations.induct)
  case (3 fuel target patterns i worklist rw)
  then show ?case
    by (auto split: option.splits if_splits)
qed simp_all

text \<open>When the driver succeeds, every operation left is legal: each operation is legal
  or still on the worklist, all along.\<close>

lemma convertOperations_success_legal:
  assumes wb: "\<forall>p \<in> set ps. preservesOps p"
  shows "wellFormed rw \<Longrightarrow>
    \<forall>j op. map_of (block rw) j = Some op \<longrightarrow> isLegal t op \<or> j \<in> set wl \<Longrightarrow>
    convertOperations fuel t ps wl rw = Some (success, rw') \<Longrightarrow>
    wellFormed rw' \<and> (\<forall>j op. map_of (block rw') j = Some op \<longrightarrow> isLegal t op)"
proof (induction fuel arbitrary: wl rw)
  case 0
  then show ?case by simp
next
  case (Suc fuel)
  show ?case
  proof (cases wl)
    case Nil
    with Suc.prems show ?thesis by simp
  next
    case (Cons i wl')
    show ?thesis
    proof (cases "map_of (block rw) i")
      case None
      with Suc.prems(2) have "\<forall>j op. map_of (block rw) j = Some op \<longrightarrow>
          isLegal t op \<or> j \<in> set wl'"
        unfolding Cons by (metis option.distinct(1) set_ConsD)
      with Suc.IH [OF Suc.prems(1), of wl'] Suc.prems(3) None show ?thesis
        by (simp add: Cons)
    next
      case (Some op)
      show ?thesis
      proof (cases "isLegal t op")
        case True
        with Suc.prems(2) Some have "\<forall>j op. map_of (block rw) j = Some op \<longrightarrow>
            isLegal t op \<or> j \<in> set wl'"
          unfolding Cons by (metis option.inject set_ConsD)
        with Suc.IH [OF Suc.prems(1), of wl'] Suc.prems(3) Some True show ?thesis
          by (simp add: Cons)
      next
        case False
        from Suc.prems(3) Some False obtain rw1 rw2 where
          tried: "tryPatterns ps (i, op) rw = Some rw1"
          and committed: "commit (i, op) rw1 = Some rw2"
          and rest: "convertOperations fuel t ps (wl' @ newOps rw rw2) rw2 = Some (success, rw')"
          by (auto simp add: Cons split: option.splits)
        note step = rewrite_step [OF wb Suc.prems(1) tried committed]
        have "isLegal t op2 \<or> j \<in> set (wl' @ newOps rw rw2)"
          if look: "map_of (block rw2) j = Some op2" for j op2
        proof -
          from step(3) [OF look] obtain g op1 where ji: "j \<noteq> i"
            and op2: "op2 = mapOperands g op1"
            and old: "j < nextId rw \<longrightarrow> map_of (block rw) j = Some op1"
            and new: "nextId rw \<le> j \<longrightarrow> j \<in> set (newOps rw rw2)"
            by blast
          show ?thesis
          proof (cases "j < nextId rw")
            case True
            with old Suc.prems(2) ji have "isLegal t op1 \<or> j \<in> set wl'"
              unfolding Cons by (metis set_ConsD)
            then show ?thesis by (auto simp add: op2)
          next
            case False
            with new show ?thesis by simp
          qed
        qed
        with Suc.IH [OF step(1) _ rest] show ?thesis
          by blast
      qed
    qed
  qed
qed

lemma convertOperations_all_legal:
  assumes "\<forall>j \<in> set wl. \<forall>op. map_of (block rw) j = Some op \<longrightarrow> isLegal t op"
    and "length wl < fuel"
  shows "convertOperations fuel t ps wl rw = Some (success, rw)"
  using assms
proof (induction wl arbitrary: fuel)
  case Nil
  then show ?case by (cases fuel) simp_all
next
  case (Cons j wl)
  from Cons.prems(2) obtain n where fuel: "fuel = Suc n" and n: "length wl < n"
    by (cases fuel) auto
  from Cons.prems(1) Cons.IH [OF _ n] show ?case
    by (auto simp add: fuel split: option.splits)
qed

text \<open>
  Termination of the driver. Let every operation have a level, which replacing operands
  does not change, and let a pattern that applies to an illegal operation of level at
  most \<open>d\<close> create only operations that are legal or of a lower level. Then a worklist
  of operations of level at most \<open>e\<close> is handled in finitely many rounds: the driver
  fails on an operation that it cannot convert, or what is left on the worklist is of
  level below \<open>e\<close>.
\<close>

lemma convertOperations_drain:
  fixes level :: "Operation \<Rightarrow> nat"
  assumes wb: "\<forall>p \<in> set ps. preservesOps p"
    and lm: "\<forall>f op. level (mapOperands f op) = level op"
    and dec: "\<forall>i op rw rw1. wellFormed rw \<and> map_of (block rw) i = Some op \<and> level op \<le> d
        \<and> \<not> isLegal t op \<and> tryPatterns ps (i, op) rw = Some rw1 \<longrightarrow>
        (\<forall>j op'. nextId rw \<le> j \<and> map_of (block rw1) j = Some op' \<longrightarrow>
            isLegal t op' \<or> level op' < level op)"
    and e: "e \<le> d"
  shows "wellFormed rw \<Longrightarrow>
    \<forall>j \<in> set wl. \<forall>op. map_of (block rw) j = Some op \<longrightarrow> isLegal t op \<or> level op < Suc e \<Longrightarrow>
    \<forall>j \<in> set rest. \<forall>op. map_of (block rw) j = Some op \<longrightarrow> isLegal t op \<or> level op < e \<Longrightarrow>
    (\<exists>n rw' i op rw0.
        (\<forall>fuel. convertOperations (Suc n + fuel) t ps (wl @ rest) rw = Some (failure, rw'))
        \<and> wellFormed rw0 \<and> map_of (block rw0) i = Some op \<and> level op \<le> d
        \<and> unconvertible t ps (i, op) rw0)
    \<or> (\<exists>n rest' rw'. wellFormed rw'
      \<and> (\<forall>j \<in> set rest'. \<forall>op. map_of (block rw') j = Some op \<longrightarrow>
            isLegal t op \<or> level op < e)
      \<and> (\<forall>fuel. convertOperations (n + fuel) t ps (wl @ rest) rw
            = convertOperations fuel t ps rest' rw'))"
proof (induction wl arbitrary: rw rest)
  case Nil
  then have "wellFormed rw
      \<and> (\<forall>j \<in> set rest. \<forall>op. map_of (block rw) j = Some op \<longrightarrow> isLegal t op \<or> level op < e)
      \<and> (\<forall>fuel. convertOperations (0 + fuel) t ps ([] @ rest) rw
            = convertOperations fuel t ps rest rw)"
    by simp
  then show ?case by blast
next
  case (Cons i wl)
  have shift: ?case
    if same: "\<forall>fuel. convertOperations (Suc fuel) t ps ((i # wl) @ rest) rw
        = convertOperations fuel t ps (wl @ rest2) rw2"
      and ih: "(\<exists>n rw' i op rw0.
        (\<forall>fuel. convertOperations (Suc n + fuel) t ps (wl @ rest2) rw2 = Some (failure, rw'))
        \<and> wellFormed rw0 \<and> map_of (block rw0) i = Some op \<and> level op \<le> d
        \<and> unconvertible t ps (i, op) rw0)
      \<or> (\<exists>n rest' rw'. wellFormed rw'
        \<and> (\<forall>j \<in> set rest'. \<forall>op. map_of (block rw') j = Some op \<longrightarrow>
              isLegal t op \<or> level op < e)
        \<and> (\<forall>fuel. convertOperations (n + fuel) t ps (wl @ rest2) rw2
              = convertOperations fuel t ps rest' rw'))"
    for rest2 rw2
    using ih
  proof (elim disjE exE conjE)
    fix n rw' k op rw0
    assume "\<forall>fuel. convertOperations (Suc n + fuel) t ps (wl @ rest2) rw2 = Some (failure, rw')"
      and found: "wellFormed rw0" "map_of (block rw0) k = Some op" "level op \<le> d"
        "unconvertible t ps (k, op) rw0"
    with same have "\<forall>fuel. convertOperations (Suc (Suc n) + fuel) t ps ((i # wl) @ rest) rw
        = Some (failure, rw')"
      by simp
    with found show ?thesis by blast
  next
    fix n rest' rw'
    assume "wellFormed rw'"
      and "\<forall>j \<in> set rest'. \<forall>op. map_of (block rw') j = Some op \<longrightarrow>
            isLegal t op \<or> level op < e"
      and "\<forall>fuel. convertOperations (n + fuel) t ps (wl @ rest2) rw2
            = convertOperations fuel t ps rest' rw'"
    with same have "wellFormed rw'
      \<and> (\<forall>j \<in> set rest'. \<forall>op. map_of (block rw') j = Some op \<longrightarrow>
            isLegal t op \<or> level op < e)
      \<and> (\<forall>fuel. convertOperations (Suc n + fuel) t ps ((i # wl) @ rest) rw
            = convertOperations fuel t ps rest' rw')"
      by simp
    then show ?thesis by blast
  qed
  have skip: ?case
    if same: "\<forall>fuel. convertOperations (Suc fuel) t ps ((i # wl) @ rest) rw
        = convertOperations fuel t ps (wl @ rest) rw"
  proof (rule shift [OF same])
    from Cons.prems(2) have "\<forall>j \<in> set wl. \<forall>op. map_of (block rw) j = Some op \<longrightarrow>
        isLegal t op \<or> level op < Suc e"
      by simp
    from Cons.IH [OF Cons.prems(1) this Cons.prems(3)]
    show "(\<exists>n rw' i op rw0.
        (\<forall>fuel. convertOperations (Suc n + fuel) t ps (wl @ rest) rw = Some (failure, rw'))
        \<and> wellFormed rw0 \<and> map_of (block rw0) i = Some op \<and> level op \<le> d
        \<and> unconvertible t ps (i, op) rw0)
      \<or> (\<exists>n rest' rw'. wellFormed rw'
        \<and> (\<forall>j \<in> set rest'. \<forall>op. map_of (block rw') j = Some op \<longrightarrow>
              isLegal t op \<or> level op < e)
        \<and> (\<forall>fuel. convertOperations (n + fuel) t ps (wl @ rest) rw
              = convertOperations fuel t ps rest' rw'))" .
  qed
  show ?case
  proof (cases "map_of (block rw) i")
    case None
    then show ?thesis by (intro skip) simp
  next
    case (Some op)
    show ?thesis
    proof (cases "isLegal t op")
      case True
      with Some show ?thesis by (intro skip) simp
    next
      case False
      with Cons.prems(2) Some have lvl: "level op \<le> e"
        by auto
      with e have lvd: "level op \<le> d"
        by simp
      have fails: ?thesis
        if un: "unconvertible t ps (i, op) rw"
      proof -
        from un Some False
        have "\<forall>fuel. convertOperations (Suc 0 + fuel) t ps ((i # wl) @ rest) rw
            = Some (failure, rw)"
          by (auto simp add: unconvertible_def split: option.splits)
        with Cons.prems(1) Some lvd un show ?thesis by blast
      qed
      show ?thesis
      proof (cases "tryPatterns ps (i, op) rw")
        case None
        with False show ?thesis
          by (intro fails) (simp add: unconvertible_def)
      next
        case tried: (Some rw1)
        show ?thesis
        proof (cases "commit (i, op) rw1")
          case None
          with False tried show ?thesis
            by (intro fails) (simp add: unconvertible_def)
        next
          case committed: (Some rw2)
          from dec Cons.prems(1) Some False lvd tried
          have lower: "\<forall>j op'. nextId rw \<le> j \<and> map_of (block rw1) j = Some op' \<longrightarrow>
                isLegal t op' \<or> level op' < level op"
            by blast
          note step = rewrite_step [OF wb Cons.prems(1) tried committed]
          have keep: "isLegal t op2 \<or> level op2 < k"
            if look: "map_of (block rw2) j = Some op2"
              and before: "\<forall>op. map_of (block rw) j = Some op \<longrightarrow> isLegal t op \<or> level op < k"
              and k: "e \<le> k" for j op2 k
          proof -
            from step(3) [OF look] obtain g op1 where op2: "op2 = mapOperands g op1"
              and now: "map_of (block rw1) j = Some op1"
              and old: "j < nextId rw \<longrightarrow> map_of (block rw) j = Some op1"
              by blast
            show ?thesis
            proof (cases "j < nextId rw")
              case True
              with old before have "isLegal t op1 \<or> level op1 < k"
                by blast
              then show ?thesis
                using lm by (simp add: op2)
            next
              case False
              with lower now have "isLegal t op1 \<or> level op1 < level op"
                by (simp add: not_less)
              with lvl k show ?thesis
                using lm by (auto simp add: op2)
            qed
          qed
          have new: "isLegal t op2 \<or> level op2 < e"
            if look: "map_of (block rw2) j = Some op2" and j: "j \<in> set (newOps rw rw2)"
            for j op2
          proof -
            from step(3) [OF look] obtain g op1 where op2: "op2 = mapOperands g op1"
              and now: "map_of (block rw1) j = Some op1"
              by blast
            from j have "nextId rw \<le> j"
              by (simp add: newOps_def)
            with lower now have "isLegal t op1 \<or> level op1 < level op"
              by simp
            with lvl show ?thesis
              using lm by (auto simp add: op2)
          qed
          have wl: "\<forall>j \<in> set wl. \<forall>op. map_of (block rw2) j = Some op \<longrightarrow>
              isLegal t op \<or> level op < Suc e"
          proof (intro ballI allI impI)
            fix j op2
            assume j: "j \<in> set wl" and look: "map_of (block rw2) j = Some op2"
            from j Cons.prems(2) have "\<forall>op. map_of (block rw) j = Some op \<longrightarrow>
                isLegal t op \<or> level op < Suc e"
              by simp
            from keep [OF look this] show "isLegal t op2 \<or> level op2 < Suc e" by simp
          qed
          have rest: "\<forall>j \<in> set (rest @ newOps rw rw2).
              \<forall>op. map_of (block rw2) j = Some op \<longrightarrow> isLegal t op \<or> level op < e"
          proof (intro ballI allI impI)
            fix j op2
            assume j: "j \<in> set (rest @ newOps rw rw2)"
              and look: "map_of (block rw2) j = Some op2"
            show "isLegal t op2 \<or> level op2 < e"
            proof (cases "j \<in> set rest")
              case True
              with Cons.prems(3) have "\<forall>op. map_of (block rw) j = Some op \<longrightarrow>
                  isLegal t op \<or> level op < e"
                by blast
              from keep [OF look this] show ?thesis by simp
            next
              case False
              with j have "j \<in> set (newOps rw rw2)" by simp
              from new [OF look this] show ?thesis .
            qed
          qed
          have same: "\<forall>fuel. convertOperations (Suc fuel) t ps ((i # wl) @ rest) rw
              = convertOperations fuel t ps (wl @ rest @ newOps rw rw2) rw2"
            using Some False tried committed by simp
          show ?thesis
            by (rule shift [OF same]) (rule Cons.IH [OF step(1) wl rest])
        qed
      qed
    qed
  qed
qed

text \<open>Under the same conditions the driver returns, given rounds enough, and when it
  returns failure there was an operation that it could not convert.\<close>

lemma convertOperations_returns:
  fixes level :: "Operation \<Rightarrow> nat"
  assumes wb: "\<forall>p \<in> set ps. preservesOps p"
    and lm: "\<forall>f op. level (mapOperands f op) = level op"
    and dec: "\<forall>i op rw rw1. wellFormed rw \<and> map_of (block rw) i = Some op \<and> level op \<le> d
        \<and> \<not> isLegal t op \<and> tryPatterns ps (i, op) rw = Some rw1 \<longrightarrow>
        (\<forall>j op'. nextId rw \<le> j \<and> map_of (block rw1) j = Some op' \<longrightarrow>
            isLegal t op' \<or> level op' < level op)"
  shows "e \<le> Suc d \<Longrightarrow> wellFormed rw \<Longrightarrow>
    \<forall>j \<in> set wl. \<forall>op. map_of (block rw) j = Some op \<longrightarrow> isLegal t op \<or> level op < e \<Longrightarrow>
    \<exists>n r rw'. (\<forall>fuel \<ge> n. convertOperations fuel t ps wl rw = Some (r, rw'))
      \<and> (r = failure \<longrightarrow>
          (\<exists>i op rw0. wellFormed rw0 \<and> map_of (block rw0) i = Some op \<and> level op \<le> d
            \<and> unconvertible t ps (i, op) rw0))"
proof (induction e arbitrary: wl rw)
  case 0
  then have "\<forall>j \<in> set wl. \<forall>op. map_of (block rw) j = Some op \<longrightarrow> isLegal t op"
    by simp
  then have "\<forall>fuel \<ge> Suc (length wl). convertOperations fuel t ps wl rw = Some (success, rw)"
    by (intro allI impI convertOperations_all_legal) simp_all
  then have "(\<forall>fuel \<ge> Suc (length wl). convertOperations fuel t ps wl rw = Some (success, rw))
      \<and> (success = failure \<longrightarrow>
          (\<exists>i op rw0. wellFormed rw0 \<and> map_of (block rw0) i = Some op \<and> level op \<le> d
            \<and> unconvertible t ps (i, op) rw0))"
    by simp
  then show ?case by blast
next
  case (Suc e)
  then have e: "e \<le> d" by simp
  have none: "\<forall>j \<in> set []. \<forall>op. map_of (block rw) j = Some op \<longrightarrow>
      isLegal t op \<or> level op < e"
    by simp
  from convertOperations_drain [OF wb lm dec e Suc.prems(2,3) none]
  show ?case
  proof (elim disjE exE conjE)
    fix n rw' i op rw0
    assume run: "\<forall>fuel. convertOperations (Suc n + fuel) t ps (wl @ []) rw
        = Some (failure, rw')"
      and found: "wellFormed rw0" "map_of (block rw0) i = Some op" "level op \<le> d"
        "unconvertible t ps (i, op) rw0"
    have "convertOperations fuel t ps wl rw = Some (failure, rw')" if "Suc n \<le> fuel" for fuel
    proof -
      from that have "fuel = Suc n + (fuel - Suc n)"
        by simp
      with run show ?thesis by (metis append_Nil2)
    qed
    with found show ?thesis by blast
  next
    fix n rest' rw'
    assume wf: "wellFormed rw'"
      and low: "\<forall>j \<in> set rest'. \<forall>op. map_of (block rw') j = Some op \<longrightarrow>
            isLegal t op \<or> level op < e"
      and run: "\<forall>fuel. convertOperations (n + fuel) t ps (wl @ []) rw
            = convertOperations fuel t ps rest' rw'"
    from e have "e \<le> Suc d"
      by simp
    from Suc.IH [OF this wf low] obtain m r rw'' where
      fin: "\<forall>fuel \<ge> m. convertOperations fuel t ps rest' rw' = Some (r, rw'')"
      and blame: "r = failure \<longrightarrow>
          (\<exists>i op rw0. wellFormed rw0 \<and> map_of (block rw0) i = Some op \<and> level op \<le> d
            \<and> unconvertible t ps (i, op) rw0)"
      by (elim exE conjE) (rule that; assumption)
    have "convertOperations fuel t ps wl rw = Some (r, rw'')" if "n + m \<le> fuel" for fuel
    proof -
      from that have "fuel = n + (fuel - n)" and "m \<le> fuel - n"
        by simp_all
      with run fin show ?thesis by (metis append_Nil2)
    qed
    with blame show ?thesis by blast
  qed
qed

lemma keys_take_drop:
  "map fst b = map fst (take p b) @ map fst (drop p b)"
  by (metis append_take_drop_id map_append)

lemma distinct_insert_keys:
  assumes "distinct (xs @ ys)" and "distinct new"
    and "\<forall>k \<in> set new. k \<notin> set xs \<and> k \<notin> set ys"
  shows "distinct (xs @ new @ ys)"
  using assms by auto

lemma map_of_insert_old:
  assumes "map_of new j = None"
  shows "map_of (take p b @ new @ drop p b) j = map_of b j"
proof -
  have "map_of (xs @ new @ ys) j = map_of (xs @ ys) j" for xs ys
    using assms by (simp add: map_add_def split: option.splits)
  then have "map_of (take p b @ new @ drop p b) j = map_of (take p b @ drop p b) j" .
  then show ?thesis by (simp only: append_take_drop_id)
qed

lemma map_of_insert_new:
  assumes "j \<notin> set (map fst b)"
  shows "map_of (take p b @ new @ drop p b) j = map_of new j"
proof -
  from assms have "j \<notin> set (map fst (take p b))" "j \<notin> set (map fst (drop p b))"
    unfolding keys_take_drop [of b p] by simp_all
  then have "map_of (take p b) j = None" "map_of (drop p b) j = None"
    by (simp_all add: map_of_eq_None_iff)
  then show ?thesis
    by (simp add: map_add_def split: option.splits)
qed

lemma wellFormed_insert:
  assumes wf: "wellFormed rw"
    and new: "distinct (map fst new)" "\<forall>k \<in> set (map fst new). nextId rw \<le> k \<and> k < m"
    and m: "nextId rw \<le> m"
    and blk: "block rw' = take p (block rw) @ new @ drop p (block rw)"
    and nxt: "nextId rw' = m"
  shows "wellFormed rw'"
    and "\<forall>j < nextId rw. map_of (block rw') j = map_of (block rw) j"
    and "\<forall>j. nextId rw \<le> j \<longrightarrow> map_of (block rw') j = map_of new j"
proof -
  let ?xs = "map fst (take p (block rw))" and ?ys = "map fst (drop p (block rw))"
  from wf have d: "distinct (?xs @ ?ys)" and lt: "\<forall>k \<in> set (?xs @ ?ys). k < nextId rw"
    unfolding wellFormed_def keys_take_drop [of "block rw" p] by blast+
  have fresh: "\<forall>k \<in> set (map fst new). k \<notin> set ?xs \<and> k \<notin> set ?ys"
  proof
    fix k assume "k \<in> set (map fst new)"
    with new(2) have "nextId rw \<le> k" by blast
    with lt show "k \<notin> set ?xs \<and> k \<notin> set ?ys"
      by (metis Un_iff not_le set_append)
  qed
  have keys: "map fst (block rw') = ?xs @ map fst new @ ?ys"
    by (simp add: blk)
  have "distinct (?xs @ map fst new @ ?ys)"
    by (rule distinct_insert_keys [OF d new(1) fresh])
  moreover have "\<forall>j \<in> set (?xs @ map fst new @ ?ys). j < m"
  proof
    fix j assume "j \<in> set (?xs @ map fst new @ ?ys)"
    then consider "j \<in> set (?xs @ ?ys)" | "j \<in> set (map fst new)"
      by auto
    then show "j < m"
    proof cases
      case 1
      with lt m show ?thesis by (meson less_le_trans)
    next
      case 2
      with new(2) show ?thesis by blast
    qed
  qed
  ultimately show "wellFormed rw'"
    unfolding wellFormed_def keys nxt by blast
  show "\<forall>j < nextId rw. map_of (block rw') j = map_of (block rw) j"
  proof (intro allI impI)
    fix j assume "j < nextId rw"
    with new(2) have "j \<notin> set (map fst new)"
      by (metis not_le)
    then have "map_of new j = None"
      by (simp add: map_of_eq_None_iff)
    then show "map_of (block rw') j = map_of (block rw) j"
      unfolding blk by (rule map_of_insert_old)
  qed
  show "\<forall>j. nextId rw \<le> j \<longrightarrow> map_of (block rw') j = map_of new j"
  proof (intro allI impI)
    fix j assume "nextId rw \<le> j"
    with wf have "j \<notin> set (map fst (block rw))"
      unfolding wellFormed_def by (metis not_le)
    then show "map_of (block rw') j = map_of new j"
      unfolding blk by (rule map_of_insert_new)
  qed
qed

lemma legal_created_by_slice:
  "isLegal LegalizeHloToTf_target (TFConstOp v)"
  "isLegal LegalizeHloToTf_target (TFSliceOp ty a b c)"
  by (simp_all add: isLegal_def LegalizeHloToTf_target_def addLegalOp_def
      addLegalDialect_def newConversionTarget_def)

text \<open>What the slice pattern leaves when it applies: three new legal operations, put in
  at one place, and the replacement of the slice.\<close>

lemma unit_stride_slice_block:
  assumes "isSplat strides" and "getInt (getSplatValue strides) = 1"
  shows "\<exists>rw' p new.
     matchAndRewrite (i, HloSliceOp operand start_indices limit_indices strides ty) args rw
       = (success, rw')
     \<and> block rw' = take p (block rw) @ new @ drop p (block rw)
     \<and> map fst new = [nextId rw, Suc (nextId rw), Suc (Suc (nextId rw))]
     \<and> (\<forall>op \<in> set (map snd new). isLegal LegalizeHloToTf_target op)
     \<and> nextId rw' = nextId rw + 3
     \<and> replacements rw' = replacements rw @ [(i, OpResult (Suc (Suc (nextId rw))) ty)]"
proof -
  let ?sv = "size_values_of (getValues start_indices) (getValues limit_indices)"
  let ?ty64 = "RankedTensorType [int (length ?sv)] (IntegerType 64)"
  let ?new = "[(nextId rw, TFConstOp start_indices),
     (Suc (nextId rw), TFConstOp (DenseIntElementsAttr ?ty64 ?sv)),
     (Suc (Suc (nextId rw)),
      TFSliceOp ty operand (OpResult (nextId rw) (attrType start_indices))
        (OpResult (Suc (nextId rw)) ?ty64))]"
  let ?p = "Suc (indexOf i (block rw))"
  let ?rw' = "rw\<lparr>block := take ?p (block rw) @ ?new @ drop ?p (block rw),
      insertionPoint := ?p + 3, nextId := nextId rw + 3,
      replacements := replacements rw @ [(i, OpResult (Suc (Suc (nextId rw))) ty)]\<rparr>"
  have "matchAndRewrite (i, HloSliceOp operand start_indices limit_indices strides ty) args rw
       = (success, ?rw')"
    unfolding matchAndRewrite_unit_stride [OF assms] Let_def ..
  moreover have "block ?rw' = take ?p (block rw) @ ?new @ drop ?p (block rw)"
    by simp
  moreover have "map fst ?new = [nextId rw, Suc (nextId rw), Suc (Suc (nextId rw))]"
    by simp
  moreover have "\<forall>op \<in> set (map snd ?new). isLegal LegalizeHloToTf_target op"
    by (simp add: legal_created_by_slice)
  moreover have "nextId ?rw' = nextId rw + 3"
    by simp
  moreover have "replacements ?rw'
      = replacements rw @ [(i, OpResult (Suc (Suc (nextId rw))) ty)]"
    by simp
  ultimately show ?thesis
    by (intro exI [of _ ?rw'] exI [of _ ?p] exI [of _ ?new] conjI)
qed

lemma ConvertSliceOp_success:
  assumes "ConvertSliceOp (i, op) rw = (success, rw')"
  shows "\<exists>operand start_indices limit_indices strides ty.
    op = HloSliceOp operand start_indices limit_indices strides ty
    \<and> isSplat strides \<and> getInt (getSplatValue strides) = 1"
proof (cases op)
  case (HloSliceOp operand start_indices limit_indices strides ty)
  with assms show ?thesis
    by (cases "isSplat strides \<and> getInt (getSplatValue strides) = 1")
      (auto simp add: ConvertSliceOp_def)
qed (use assms in \<open>simp_all add: ConvertSliceOp_def\<close>)

lemma ConvertSliceOp_preservesOps: "preservesOps ConvertSliceOp"
  unfolding preservesOps_def
proof (intro allI impI)
  fix op :: "nat \<times> Operation" and rw rw'
  assume wf: "wellFormed rw" and ok: "ConvertSliceOp op rw = (success, rw')"
  obtain i operation where op: "op = (i, operation)"
    by (cases op)
  from ConvertSliceOp_success [OF ok [unfolded op]]
  obtain operand start_indices limit_indices strides ty where
    slice: "operation = HloSliceOp operand start_indices limit_indices strides ty"
    and s: "isSplat strides" "getInt (getSplatValue strides) = 1"
    by blast
  from unit_stride_slice_block [OF s, of i operand start_indices limit_indices ty
      "[operand]" rw]
  obtain rw2 p new where
    m: "matchAndRewrite (i, HloSliceOp operand start_indices limit_indices strides ty)
          [operand] rw = (success, rw2)"
    and blk2: "block rw2 = take p (block rw) @ new @ drop p (block rw)"
    and keys: "map fst new = [nextId rw, Suc (nextId rw), Suc (Suc (nextId rw))]"
    and nxt2: "nextId rw2 = nextId rw + 3"
    by (elim exE conjE) (rule that; assumption)
  from ok m have "rw2 = rw'"
    by (simp add: ConvertSliceOp_def op slice del: matchAndRewrite.simps)
  with blk2 nxt2 have blk: "block rw' = take p (block rw) @ new @ drop p (block rw)"
    and nxt: "nextId rw' = nextId rw + 3"
    by simp_all
  have "distinct (map fst new)"
    and "\<forall>k \<in> set (map fst new). nextId rw \<le> k \<and> k < nextId rw + 3"
    unfolding keys by simp_all
  from wellFormed_insert(1,2) [OF wf this _ blk nxt] nxt
  show "wellFormed rw' \<and> nextId rw \<le> nextId rw'
    \<and> (\<forall>j < nextId rw. map_of (block rw') j = map_of (block rw) j)"
    by simp
qed

lemma runOnFunction_Some:
  "runOnFunction generated fuel function = Some res \<longleftrightarrow>
   (\<exists>r function'. applyPartialConversion fuel function LegalizeHloToTf_target
        (generated @ [ConvertSliceOp]) = Some (r, function')
      \<and> res = \<lparr>function_body = function',
                diagnostics = (if r = failure
                  then [''xla_hlo to TF legalization failed.''] else []),
                passFailed = (r = failure)\<rparr>)"
  unfolding runOnFunction_def Let_def
  by (auto split: option.splits LogicalResult.splits)

lemma wellFormed_function_of: "wellFormed (function_of ops)"
  by (simp add: wellFormed_def function_of_def)

text \<open>An operation that no pattern applies to stays in the function, whatever the
  driver does with the others.\<close>

lemma convertOperations_keeps:
  assumes wb: "\<forall>p \<in> set ps. preservesOps p"
    and stuck: "\<forall>p \<in> set ps. \<forall>f rw. fst (p (i, mapOperands f op) rw) = failure"
  shows "wellFormed rw \<Longrightarrow> map_of (block rw) i = Some (mapOperands f op) \<Longrightarrow>
    convertOperations fuel t ps wl rw = Some (r, rw') \<Longrightarrow>
    \<exists>g. map_of (block rw') i = Some (mapOperands g op)"
proof (induction fuel arbitrary: wl rw f)
  case 0
  then show ?case by simp
next
  case (Suc fuel)
  have none: "tryPatterns ps (i, mapOperands f op) rw = None"
    using stuck by (intro tryPatterns_stuck) blast
  have ilt: "i < nextId rw"
  proof -
    from Suc.prems(2) have "i \<in> set (map fst (block rw))"
      by (metis map_of_eq_None_iff option.distinct(1) set_map)
    with Suc.prems(1) show ?thesis
      unfolding wellFormed_def by blast
  qed
  show ?case
  proof (cases wl)
    case Nil
    with Suc.prems show ?thesis by auto
  next
    case (Cons j wl')
    show ?thesis
    proof (cases "map_of (block rw) j")
      case None
      with Suc.IH [OF Suc.prems(1,2), of wl'] Suc.prems(3) show ?thesis
        by (simp add: Cons)
    next
      case (Some oj)
      show ?thesis
      proof (cases "isLegal t oj")
        case True
        with Some Suc.IH [OF Suc.prems(1,2), of wl'] Suc.prems(3) show ?thesis
          by (simp add: Cons)
      next
        case illegal_j: False
        show ?thesis
        proof (cases "tryPatterns ps (j, oj) rw")
          case None
          with Some illegal_j Suc.prems(2,3) show ?thesis
            by (auto simp add: Cons)
        next
          case tried: (Some rw1)
          with none Some Suc.prems(2) have ji: "j \<noteq> i"
            by auto
          show ?thesis
          proof (cases "commit (j, oj) rw1")
            case None
            with Some illegal_j tried Suc.prems(2,3) show ?thesis
              by (auto simp add: Cons)
          next
            case committed: (Some rw2)
            note step = rewrite_step [OF wb Suc.prems(1) tried committed]
            from step(4) [of i] ji ilt Suc.prems(2)
            obtain g where "map_of (block rw2) i = Some (mapOperands g (mapOperands f op))"
              by auto
            then have 4: "map_of (block rw2) i = Some (mapOperands (g \<circ> f) op)"
              by (simp add: mapOperands_comp)
            from Suc.prems(3) Some illegal_j tried committed
            have "convertOperations fuel t ps (wl' @ newOps rw rw2) rw2 = Some (r, rw')"
              by (simp add: Cons)
            from Suc.IH [OF step(1) 4 this] show ?thesis .
          qed
        qed
      qed
    qed
  qed
qed

text \<open>If such an operation is illegal, the driver cannot succeed.\<close>

lemma convertOperations_stuck_fails:
  assumes wb: "\<forall>p \<in> set ps. preservesOps p"
    and stuck: "\<forall>p \<in> set ps. \<forall>f rw. fst (p (i, mapOperands f op) rw) = failure"
    and illegal: "\<not> isLegal t op"
    and wf: "wellFormed rw"
    and look: "map_of (block rw) i = Some op"
    and listed: "\<forall>j op. map_of (block rw) j = Some op \<longrightarrow> isLegal t op \<or> j \<in> set wl"
    and run: "convertOperations fuel t ps wl rw = Some (r, rw')"
  shows "r = failure \<and> (\<exists>g. map_of (block rw') i = Some (mapOperands g op))"
proof -
  from look have "map_of (block rw) i = Some (mapOperands (\<lambda>v. v) op)"
    by (simp add: mapOperands_id)
  from convertOperations_keeps [OF wb stuck wf this run]
  obtain g where kept: "map_of (block rw') i = Some (mapOperands g op)"
    by blast
  have "r = failure"
  proof (cases r)
    case success
    with convertOperations_success_legal [OF wb wf listed] run kept
    have "isLegal t (mapOperands g op)"
      by blast
    with illegal show ?thesis by simp
  qed
  with kept show ?thesis by blast
qed

text \<open>
  C8. Let the generated patterns keep a function well formed and leave existing
  operations as they are, and let the function be well formed. The patterns of the
  pass are the generated ones and then the slice pattern.

  \<^item> If an operation of the function is illegal and no pattern applies to it (whatever
    its operands were replaced by), then the pass, given more rounds than the function
    has operations, returns: it has signalled failure and emitted the error, and the
    operation is still in the function.
  \<^item> The same holds for the driver in any state, so also for an operation that a
    pattern created: if an illegal operation with no pattern that applies is on the
    worklist, the driver, given more rounds than the worklist is long, returns failure,
    and the operation is still in the function. If every illegal operation is on the
    worklist and one of them has no pattern that applies, then the driver, whenever it
    returns, returns failure, and the operation is still in the function.
  \<^item> Whenever the pass returns, it has signalled failure exactly when it emitted the
    error, which is exactly when the driver returned failure, and which is exactly when
    an illegal operation is left in the function: with no failure, every operation left
    is legal.
  \<^item> If all operations of the function are legal from the start, the pass returns the
    function as it was, with no error and no failure.
  \<^item> The pass returns, given rounds enough, when the rewriting comes to an end: when
    the operations have levels, bounded in the function and unchanged by a replacement
    of operands, such that a pattern applied to an illegal operation creates only legal
    operations and operations of a lower level. If moreover every illegal operation
    that the driver can meet is converted (a pattern applies to it, with a replacement
    of the type of its result), the pass returns with no failure and no error, and all
    operations left are legal.
\<close>

theorem unconverted_operation_fails_pass:
  assumes "\<forall>p \<in> set generated. preservesOps p" and "wellFormed function"
  shows
    "(\<forall>fuel i op.
        map_of (block function) i = Some op
        \<and> \<not> isLegal LegalizeHloToTf_target op
        \<and> (\<forall>p \<in> set (generated @ [ConvertSliceOp]).
              \<forall>f rw. fst (p (i, mapOperands f op) rw) = failure)
        \<and> length (block function) < fuel
        \<longrightarrow> (\<exists>res f. runOnFunction generated fuel function = Some res
              \<and> passFailed res
              \<and> diagnostics res = [''xla_hlo to TF legalization failed.'']
              \<and> map_of (block (function_body res)) i = Some (mapOperands f op)))
     \<and> (\<forall>fuel worklist rw i op.
          wellFormed rw \<and> map_of (block rw) i = Some op
          \<and> \<not> isLegal LegalizeHloToTf_target op
          \<and> (\<forall>p \<in> set (generated @ [ConvertSliceOp]).
                \<forall>f rw. fst (p (i, mapOperands f op) rw) = failure)
          \<and> i \<in> set worklist \<and> length worklist < fuel
          \<longrightarrow> (\<exists>rw' f.
                convertOperations fuel LegalizeHloToTf_target (generated @ [ConvertSliceOp])
                  worklist rw = Some (failure, rw')
                \<and> map_of (block rw') i = Some (mapOperands f op)))
     \<and> (\<forall>fuel worklist rw r rw' i op.
          wellFormed rw \<and> map_of (block rw) i = Some op
          \<and> \<not> isLegal LegalizeHloToTf_target op
          \<and> (\<forall>p \<in> set (generated @ [ConvertSliceOp]).
                \<forall>f rw. fst (p (i, mapOperands f op) rw) = failure)
          \<and> (\<forall>j op. map_of (block rw) j = Some op \<longrightarrow>
                isLegal LegalizeHloToTf_target op \<or> j \<in> set worklist)
          \<and> convertOperations fuel LegalizeHloToTf_target (generated @ [ConvertSliceOp])
                worklist rw = Some (r, rw')
          \<longrightarrow> r = failure \<and> (\<exists>f. map_of (block rw') i = Some (mapOperands f op)))
     \<and> (\<forall>fuel res. runOnFunction generated fuel function = Some res \<longrightarrow>
          (passFailed res \<longleftrightarrow> diagnostics res = [''xla_hlo to TF legalization failed.''])
          \<and> (\<not> passFailed res \<longleftrightarrow> diagnostics res = [])
          \<and> (passFailed res \<longleftrightarrow>
               (\<exists>function'. applyPartialConversion fuel function LegalizeHloToTf_target
                    (generated @ [ConvertSliceOp]) = Some (failure, function')))
          \<and> (passFailed res \<longleftrightarrow>
               (\<exists>(j, op) \<in> set (block (function_body res)).
                  \<not> isLegal LegalizeHloToTf_target op)))
     \<and> (\<forall>fuel. (\<forall>(j, op) \<in> set (block function). isLegal LegalizeHloToTf_target op)
          \<and> length (block function) < fuel
        \<longrightarrow> runOnFunction generated fuel function
            = Some \<lparr>function_body = function, diagnostics = [], passFailed = False\<rparr>)
     \<and> (\<forall>(level :: Operation \<Rightarrow> nat) d.
          (\<forall>(j, op) \<in> set (block function). level op \<le> d)
          \<and> (\<forall>f op. level (mapOperands f op) = level op)
          \<and> (\<forall>i op rw rw1.
                wellFormed rw \<and> map_of (block rw) i = Some op \<and> level op \<le> d
                \<and> \<not> isLegal LegalizeHloToTf_target op
                \<and> tryPatterns (generated @ [ConvertSliceOp]) (i, op) rw = Some rw1
                \<longrightarrow> (\<forall>j op'. nextId rw \<le> j \<and> map_of (block rw1) j = Some op' \<longrightarrow>
                      isLegal LegalizeHloToTf_target op' \<or> level op' < level op))
          \<longrightarrow> (\<exists>n res.
                (\<forall>fuel \<ge> n. runOnFunction generated fuel function = Some res)
                \<and> ((\<forall>i op rw. wellFormed rw \<and> map_of (block rw) i = Some op
                        \<and> level op \<le> d
                        \<longrightarrow> \<not> unconvertible LegalizeHloToTf_target
                              (generated @ [ConvertSliceOp]) (i, op) rw)
                   \<longrightarrow> \<not> passFailed res \<and> diagnostics res = []
                       \<and> (\<forall>(j, op) \<in> set (block (function_body res)).
                            isLegal LegalizeHloToTf_target op))))"
proof -
  let ?t = LegalizeHloToTf_target
  let ?ps = "generated @ [ConvertSliceOp]"
  have wb: "\<forall>p \<in> set ?ps. preservesOps p"
    using assms(1) ConvertSliceOp_preservesOps by simp
  note wf = assms(2)
  have listed: "\<forall>j op. map_of (block function) j = Some op \<longrightarrow>
      isLegal ?t op \<or> j \<in> set (map fst (block function))"
    by (metis map_of_eq_None_iff option.distinct(1) set_map)
  have legal_result: "\<forall>(j, op) \<in> set (block rw'). isLegal ?t op"
    if "convertOperations fuel ?t ?ps (map fst (block function)) function
        = Some (success, rw')" for fuel rw'
  proof -
    from convertOperations_success_legal [OF wb wf listed that]
    have "distinct (map fst (block rw'))"
      and "\<forall>j op. map_of (block rw') j = Some op \<longrightarrow> isLegal ?t op"
      by (simp_all add: wellFormed_def)
    then show ?thesis
      by (auto dest: map_of_is_SomeI)
  qed
  have 1: "\<exists>res f. runOnFunction generated fuel function = Some res
      \<and> passFailed res
      \<and> diagnostics res = [''xla_hlo to TF legalization failed.'']
      \<and> map_of (block (function_body res)) i = Some (mapOperands f op)"
    if a: "map_of (block function) i = Some op \<and> \<not> isLegal ?t op
        \<and> (\<forall>p \<in> set ?ps. \<forall>f rw. fst (p (i, mapOperands f op) rw) = failure)
        \<and> length (block function) < fuel" for fuel i op
  proof -
    from a have stuck: "\<forall>p \<in> set ?ps. \<forall>f rw. fst (p (i, mapOperands f op) rw) = failure"
      and illegal: "\<not> isLegal ?t op"
      by blast+
    from a have "map_of (block function) i = Some (mapOperands (\<lambda>v. v) op)"
      by (simp add: mapOperands_id)
    moreover from a have "i \<in> set (map fst (block function))"
      by (metis map_of_eq_None_iff option.distinct(1) set_map)
    moreover from a have "length (map fst (block function)) < fuel"
      by simp
    ultimately obtain rw' g where
      "convertOperations fuel ?t ?ps (map fst (block function) @ []) function
         = Some (failure, rw')"
      and "map_of (block rw') i = Some (mapOperands g op)"
      using convertOperations_stuck [OF wb stuck illegal wf, where f = "\<lambda>v. v"
          and wl = "map fst (block function)" and fuel = fuel and extra = "[]"]
      by blast
    then show ?thesis
      by (auto simp add: runOnFunction_Some applyPartialConversion_def)
  qed
  have 2: "\<exists>rw' f. convertOperations fuel ?t ?ps worklist rw = Some (failure, rw')
      \<and> map_of (block rw') i = Some (mapOperands f op)"
    if a: "wellFormed rw \<and> map_of (block rw) i = Some op \<and> \<not> isLegal ?t op
        \<and> (\<forall>p \<in> set ?ps. \<forall>f rw. fst (p (i, mapOperands f op) rw) = failure)
        \<and> i \<in> set worklist \<and> length worklist < fuel"
    for fuel worklist rw i op
  proof -
    from a have stuck: "\<forall>p \<in> set ?ps. \<forall>f rw. fst (p (i, mapOperands f op) rw) = failure"
      and illegal: "\<not> isLegal ?t op"
      and wfr: "wellFormed rw" and listed: "i \<in> set worklist"
      and enough: "length worklist < fuel"
      by blast+
    from a have look: "map_of (block rw) i = Some (mapOperands (\<lambda>v. v) op)"
      by (simp add: mapOperands_id)
    from convertOperations_stuck [OF wb stuck illegal wfr look listed enough, of "[]"]
    show ?thesis
      by simp
  qed
  have 6: "r = failure \<and> (\<exists>f. map_of (block rw') i = Some (mapOperands f op))"
    if a: "wellFormed rw \<and> map_of (block rw) i = Some op \<and> \<not> isLegal ?t op
        \<and> (\<forall>p \<in> set ?ps. \<forall>f rw. fst (p (i, mapOperands f op) rw) = failure)
        \<and> (\<forall>j op. map_of (block rw) j = Some op \<longrightarrow> isLegal ?t op \<or> j \<in> set worklist)
        \<and> convertOperations fuel ?t ?ps worklist rw = Some (r, rw')"
    for fuel worklist rw r rw' i op
  proof -
    from a have stuck: "\<forall>p \<in> set ?ps. \<forall>f rw. fst (p (i, mapOperands f op) rw) = failure"
      and illegal: "\<not> isLegal ?t op"
      and wfr: "wellFormed rw" and look: "map_of (block rw) i = Some op"
      and listed: "\<forall>j op. map_of (block rw) j = Some op \<longrightarrow>
          isLegal ?t op \<or> j \<in> set worklist"
      and run: "convertOperations fuel ?t ?ps worklist rw = Some (r, rw')"
      by blast+
    from convertOperations_stuck_fails [OF wb stuck illegal wfr look listed run]
    show ?thesis .
  qed
  have 3: "(passFailed res \<longleftrightarrow> diagnostics res = [''xla_hlo to TF legalization failed.''])
      \<and> (\<not> passFailed res \<longleftrightarrow> diagnostics res = [])
      \<and> (passFailed res \<longleftrightarrow>
           (\<exists>function'. applyPartialConversion fuel function ?t ?ps
              = Some (failure, function')))
      \<and> (passFailed res \<longleftrightarrow>
           (\<exists>(j, op) \<in> set (block (function_body res)). \<not> isLegal ?t op))"
    if r: "runOnFunction generated fuel function = Some res" for fuel res
  proof -
    from r obtain x function' where
      run: "convertOperations fuel ?t ?ps (map fst (block function)) function
        = Some (x, function')"
      and res: "res = \<lparr>function_body = function',
          diagnostics = (if x = failure
            then [''xla_hlo to TF legalization failed.''] else []),
          passFailed = (x = failure)\<rparr>"
      by (auto simp add: runOnFunction_Some applyPartialConversion_def)
    have "(x = failure) \<longleftrightarrow> (\<exists>(j, op) \<in> set (block function'). \<not> isLegal ?t op)"
    proof (cases x)
      case success
      with legal_result run show ?thesis
        by blast
    next
      case failure
      with convertOperations_failure_illegal run
      obtain i op where "map_of (block function') i = Some op" and "\<not> isLegal ?t op"
        by blast
      then have "(i, op) \<in> set (block function')" and "\<not> isLegal ?t op"
        by (simp_all add: map_of_SomeD)
      with failure show ?thesis
        by blast
    qed
    with run show ?thesis
      by (simp add: res applyPartialConversion_def)
  qed
  have 4: "runOnFunction generated fuel function
      = Some \<lparr>function_body = function, diagnostics = [], passFailed = False\<rparr>"
    if a: "(\<forall>(j, op) \<in> set (block function). isLegal ?t op)
      \<and> length (block function) < fuel" for fuel
  proof -
    from a have "convertOperations fuel ?t ?ps (map fst (block function)) function
        = Some (success, function)"
      by (intro convertOperations_all_legal) (auto dest: map_of_SomeD)
    then show ?thesis
      by (simp add: runOnFunction_Some applyPartialConversion_def)
  qed
  have 5: "\<exists>n res.
      (\<forall>fuel \<ge> n. runOnFunction generated fuel function = Some res)
      \<and> ((\<forall>i op rw. wellFormed rw \<and> map_of (block rw) i = Some op \<and> level op \<le> d
              \<longrightarrow> \<not> unconvertible ?t ?ps (i, op) rw)
         \<longrightarrow> \<not> passFailed res \<and> diagnostics res = []
             \<and> (\<forall>(j, op) \<in> set (block (function_body res)). isLegal ?t op))"
    if a: "(\<forall>(j, op) \<in> set (block function). level op \<le> d)
      \<and> (\<forall>f op. level (mapOperands f op) = level op)
      \<and> (\<forall>i op rw rw1.
            wellFormed rw \<and> map_of (block rw) i = Some op \<and> level op \<le> d
            \<and> \<not> isLegal ?t op \<and> tryPatterns ?ps (i, op) rw = Some rw1
            \<longrightarrow> (\<forall>j op'. nextId rw \<le> j \<and> map_of (block rw1) j = Some op' \<longrightarrow>
                  isLegal ?t op' \<or> level op' < level op))"
    for level :: "Operation \<Rightarrow> nat" and d
  proof -
    from a have lm: "\<forall>f op. level (mapOperands f op) = level op"
      and dec: "\<forall>i op rw rw1.
            wellFormed rw \<and> map_of (block rw) i = Some op \<and> level op \<le> d
            \<and> \<not> isLegal ?t op \<and> tryPatterns ?ps (i, op) rw = Some rw1
            \<longrightarrow> (\<forall>j op'. nextId rw \<le> j \<and> map_of (block rw1) j = Some op' \<longrightarrow>
                  isLegal ?t op' \<or> level op' < level op)"
      by blast+
    from a have "\<forall>j \<in> set (map fst (block function)).
        \<forall>op. map_of (block function) j = Some op \<longrightarrow> isLegal ?t op \<or> level op < Suc d"
      by (auto dest: map_of_SomeD simp add: less_Suc_eq_le)
    from convertOperations_returns [OF wb lm dec le_refl wf this]
    obtain n x rw' where
      run: "\<forall>fuel \<ge> n. convertOperations fuel ?t ?ps (map fst (block function)) function
        = Some (x, rw')"
      and blame: "x = failure \<longrightarrow>
          (\<exists>i op rw0. wellFormed rw0 \<and> map_of (block rw0) i = Some op \<and> level op \<le> d
            \<and> unconvertible ?t ?ps (i, op) rw0)"
      by (elim exE conjE) (rule that; assumption)
    let ?res = "\<lparr>function_body = rw',
        diagnostics = (if x = failure
          then [''xla_hlo to TF legalization failed.''] else []),
        passFailed = (x = failure)\<rparr>"
    from run have returns: "\<forall>fuel \<ge> n. runOnFunction generated fuel function = Some ?res"
      by (simp add: runOnFunction_Some applyPartialConversion_def)
    have "\<not> passFailed ?res \<and> diagnostics ?res = []
        \<and> (\<forall>(j, op) \<in> set (block (function_body ?res)). isLegal ?t op)"
      if conv: "\<forall>i op rw. wellFormed rw \<and> map_of (block rw) i = Some op \<and> level op \<le> d
              \<longrightarrow> \<not> unconvertible ?t ?ps (i, op) rw"
    proof -
      from conv blame have "x \<noteq> failure"
        by blast
      then have x: "x = success"
        by (cases x) simp_all
      with run have "convertOperations n ?t ?ps (map fst (block function)) function
        = Some (success, rw')"
        by simp
      from legal_result [OF this] x show ?thesis
        by simp
    qed
    with returns show ?thesis
      by blast
  qed
  show ?thesis
    by (rule conjI, (intro allI impI, erule 1),
        rule conjI, (intro allI impI, erule 2),
        rule conjI, (intro allI impI, erule 6),
        rule conjI, (intro allI impI, erule 3),
        rule conjI, (intro allI impI, erule 4),
        (intro allI impI, erule 5))
qed

text \<open>
  C7. The target of the pass has one legal dialect, the TensorFlow dialect, and the
  two legal operations \<^verbatim>\<open>std.call\<close> and \<^verbatim>\<open>std.constant\<close>. An operation is legal exactly
  when it is of that dialect or one of these two operations; every other operation is
  illegal. For any target, two operations of the same dialect and name are both legal
  or both illegal.
\<close>

theorem legal_dialect_and_allow_list:
  "legalDialects LegalizeHloToTf_target = [TensorFlowDialect]
   \<and> legalOps LegalizeHloToTf_target = [CallOp, ConstantOp]
   \<and> (isLegal LegalizeHloToTf_target op \<longleftrightarrow>
        getDialect op = TensorFlowDialect \<or> getName op = CallOp \<or> getName op = ConstantOp)
   \<and> (getName op = getName op' \<longrightarrow> isLegal target op = isLegal target op')"
  by (auto simp add: LegalizeHloToTf_target_def addLegalOp_def addLegalDialect_def
      newConversionTarget_def isLegal_def getDialect_def)

text \<open>Operations of the TensorFlow dialect, \<^verbatim>\<open>std.call\<close> and \<^verbatim>\<open>std.constant\<close> are legal;
  the slice, the dot and \<^verbatim>\<open>std.addf\<close> are not.\<close>

theorem legal_dialect_and_allow_list_witness:
  "isLegal LegalizeHloToTf_target (TFConstOp (i64_vector [0, 1]))
   \<and> isLegal LegalizeHloToTf_target (StdCallOp ''f'' [] (f32_tensor []))
   \<and> isLegal LegalizeHloToTf_target
        (StdConstantOp (RankedTensorType [2] (IntegerType 64)) (i64_vector [0, 1]))
   \<and> \<not> isLegal LegalizeHloToTf_target (scenarioA_slice [1, 1])
   \<and> \<not> isLegal LegalizeHloToTf_target scenarioB_dot
   \<and> \<not> isLegal LegalizeHloToTf_target
        (OtherOp StandardOpsDialect ''addf'' [] (f32_tensor []))
   \<and> isLegal LegalizeHloToTf_target (scenarioA_slice [1, 1])
       = isLegal LegalizeHloToTf_target (scenarioA_slice [2, 1])"
proof -
  note t = legal_dialect_and_allow_list [where target = LegalizeHloToTf_target]
  have same: "getName (scenarioA_slice [1, 1]) = getName (scenarioA_slice [2, 1])"
    by (simp add: scenarioA_slice_def)
  from t [of "TFConstOp (i64_vector [0, 1])"]
  have 1: "isLegal LegalizeHloToTf_target (TFConstOp (i64_vector [0, 1]))"
    by (simp add: getDialect_def)
  from t [of "StdCallOp ''f'' [] (f32_tensor [])"]
  have 2: "isLegal LegalizeHloToTf_target (StdCallOp ''f'' [] (f32_tensor []))"
    by (simp add: CallOp_def)
  from t [of "StdConstantOp (RankedTensorType [2] (IntegerType 64)) (i64_vector [0, 1])"]
  have 3: "isLegal LegalizeHloToTf_target
        (StdConstantOp (RankedTensorType [2] (IntegerType 64)) (i64_vector [0, 1]))"
    by (simp add: ConstantOp_def)
  from t [of "scenarioA_slice [1, 1]"]
  have 4: "\<not> isLegal LegalizeHloToTf_target (scenarioA_slice [1, 1])"
    by (simp add: scenarioA_slice_def getDialect_def CallOp_def ConstantOp_def)
  from t [of "scenarioA_slice [1, 1]" "scenarioA_slice [2, 1]"] same
  have 7: "isLegal LegalizeHloToTf_target (scenarioA_slice [1, 1])
       = isLegal LegalizeHloToTf_target (scenarioA_slice [2, 1])"
    by blast
  from t [of scenarioB_dot]
  have 5: "\<not> isLegal LegalizeHloToTf_target scenarioB_dot"
    by (simp add: scenarioB_dot_def getDialect_def CallOp_def ConstantOp_def)
  from t [of "OtherOp StandardOpsDialect ''addf'' [] (f32_tensor [])"]
  have 6: "\<not> isLegal LegalizeHloToTf_target
        (OtherOp StandardOpsDialect ''addf'' [] (f32_tensor []))"
    by (simp add: getDialect_def CallOp_def ConstantOp_def)
  from 1 2 3 4 5 6 7 show ?thesis by blast
qed

lemma unitStrideSlice_mapOperands [simp]:
  "unitStrideSlice (mapOperands f op) = unitStrideSlice op"
  by (cases op) simp_all

lemma sliceLevel_mapOperands: "sliceLevel (mapOperands f op) = sliceLevel op"
  by (simp add: sliceLevel_def)

text \<open>The operations that the slice pattern creates are legal.\<close>

lemma ConvertSliceOp_creates_legal:
  assumes wf: "wellFormed rw" and ok: "ConvertSliceOp (i, op) rw = (success, rw1)"
    and j: "nextId rw \<le> j" and look: "map_of (block rw1) j = Some op'"
  shows "isLegal LegalizeHloToTf_target op'"
proof -
  from ConvertSliceOp_success [OF ok]
  obtain operand start_indices limit_indices strides ty where
    slice: "op = HloSliceOp operand start_indices limit_indices strides ty"
    and s: "isSplat strides" "getInt (getSplatValue strides) = 1"
    by blast
  from unit_stride_slice_block [OF s, of i operand start_indices limit_indices ty
      "[operand]" rw]
  obtain rw2 p new where
    m: "matchAndRewrite (i, HloSliceOp operand start_indices limit_indices strides ty)
          [operand] rw = (success, rw2)"
    and blk2: "block rw2 = take p (block rw) @ new @ drop p (block rw)"
    and keys: "map fst new = [nextId rw, Suc (nextId rw), Suc (Suc (nextId rw))]"
    and legal: "\<forall>op \<in> set (map snd new). isLegal LegalizeHloToTf_target op"
    and nxt2: "nextId rw2 = nextId rw + 3"
    by (elim exE conjE) (rule that; assumption)
  from ok m have "rw2 = rw1"
    by (simp add: ConvertSliceOp_def slice del: matchAndRewrite.simps)
  with blk2 nxt2 have blk: "block rw1 = take p (block rw) @ new @ drop p (block rw)"
    and nxt: "nextId rw1 = nextId rw + 3"
    by simp_all
  have "distinct (map fst new)"
    and "\<forall>k \<in> set (map fst new). nextId rw \<le> k \<and> k < nextId rw + 3"
    unfolding keys by simp_all
  from wellFormed_insert(3) [OF wf this _ blk nxt] j look
  have "map_of new j = Some op'"
    by simp
  then have "op' \<in> set (map snd new)"
    by (metis map_of_SomeD set_zip_rightD zip_map_fst_snd)
  with legal show ?thesis by blast
qed

text \<open>The slice pattern applies to every slice with unit strides, and the replacement
  that it declares has the type of the slice.\<close>

lemma ConvertSliceOp_applies:
  assumes "unitStrideSlice op"
  shows "\<not> unconvertible t [ConvertSliceOp] (i, op) rw"
proof -
  from assms obtain operand start_indices limit_indices strides ty where
    slice: "op = HloSliceOp operand start_indices limit_indices strides ty"
    and s: "isSplat strides" "getInt (getSplatValue strides) = 1"
    by (cases op) simp_all
  from unit_stride_slice_block [OF s, of i operand start_indices limit_indices ty
      "[operand]" rw]
  obtain rw1 where
    m: "matchAndRewrite (i, HloSliceOp operand start_indices limit_indices strides ty)
          [operand] rw = (success, rw1)"
    and repl: "replacements rw1
      = replacements rw @ [(i, OpResult (Suc (Suc (nextId rw))) ty)]"
    by (elim exE conjE) (rule that; assumption)
  from m have "tryPatterns [ConvertSliceOp] (i, op) rw = Some rw1"
    by (simp add: ConvertSliceOp_def slice del: matchAndRewrite.simps)
  moreover have "commit (i, op) rw1 \<noteq> None"
    by (simp add: commit_def repl slice)
  ultimately show ?thesis
    by (simp add: unconvertible_def)
qed

lemma non_unit_slice_stuck:
  "fst (ConvertSliceOp (i, mapOperands f (scenarioA_slice [2, 1])) rw) = failure"
  by (simp add: ConvertSliceOp_def scenarioA_slice_def i64_vector_def)

lemma scenarioA_21_fails:
  "runOnFunction [] 2 (function_of [scenarioA_slice [2, 1]])
   = Some \<lparr>function_body = function_of [scenarioA_slice [2, 1]],
           diagnostics = [''xla_hlo to TF legalization failed.''],
           passFailed = True\<rparr>"
  by (simp add: runOnFunction_def applyPartialConversion_def function_of_def
      numeral_2_eq_2 scenarioA_slice_def i64_vector_def isLegal_def
      LegalizeHloToTf_target_def addLegalOp_def addLegalDialect_def
      newConversionTarget_def CallOp_def ConstantOp_def ConvertSliceOp_def)

lemma fuel_5: "(5::nat) = Suc (Suc (Suc (Suc (Suc 0))))"
  by simp

lemma scenarioA_11_rewritten:
  "matchAndRewrite (0, scenarioA_slice [1, 1]) [scenarioA_operand]
        (function_of [scenarioA_slice [1, 1]])
     = (success,
        \<lparr>block = [(0, scenarioA_slice [1, 1]),
                  (1, TFConstOp (i64_vector [0, 1])),
                  (2, TFConstOp (i64_vector [4, 2])),
                  (3, TFSliceOp (f32_tensor [4, 2]) scenarioA_operand
                        (OpResult 1 (RankedTensorType [2] (IntegerType 64)))
                        (OpResult 2 (RankedTensorType [2] (IntegerType 64))))],
         insertionPoint = 4, nextId = 4,
         replacements = [(0, OpResult 3 (f32_tensor [4, 2]))]\<rparr>)"
  using matchAndRewrite_unit_stride [OF unit_splat_1_1 [THEN conjunct1]
      unit_splat_1_1 [THEN conjunct2], where slice_op = 0 and operand = scenarioA_operand
      and start_indices = "i64_vector [0, 1]" and limit_indices = "i64_vector [4, 3]"
      and ty = "f32_tensor [4, 2]" and args = "[scenarioA_operand]"
      and rewriter = "function_of [scenarioA_slice [1, 1]]"]
  by (simp add: Let_def scenarioA_slice_def function_of_def i64_vector_def
      getValues_def attrBitWidth_def del: matchAndRewrite.simps)

lemma scenarioA_11_converts:
  "runOnFunction [] 5 (function_of [scenarioA_slice [1, 1]])
   = Some \<lparr>function_body =
             \<lparr>block = [(1, TFConstOp (i64_vector [0, 1])),
                       (2, TFConstOp (i64_vector [4, 2])),
                       (3, TFSliceOp (f32_tensor [4, 2]) scenarioA_operand
                             (OpResult 1 (RankedTensorType [2] (IntegerType 64)))
                             (OpResult 2 (RankedTensorType [2] (IntegerType 64))))],
              insertionPoint = 4, nextId = 4,
              replacements = [(0, OpResult 3 (f32_tensor [4, 2]))]\<rparr>,
           diagnostics = [], passFailed = False\<rparr>"
proof -
  have illegal: "\<not> isLegal LegalizeHloToTf_target (scenarioA_slice [1, 1])"
    by (simp add: isLegal_def scenarioA_slice_def LegalizeHloToTf_target_def addLegalOp_def
        addLegalDialect_def newConversionTarget_def CallOp_def ConstantOp_def)
  have ops: "getOperands (scenarioA_slice [1, 1]) = [scenarioA_operand]"
    by (simp add: scenarioA_slice_def)
  have ty: "resultType (scenarioA_slice [1, 1]) = f32_tensor [4, 2]"
    by (simp add: scenarioA_slice_def)
  have arg: "replaceUse 0 v scenarioA_operand = scenarioA_operand" for v
    by (simp add: scenarioA_operand_def)
  have blk: "block (function_of [scenarioA_slice [1, 1]]) = [(0, scenarioA_slice [1, 1])]"
    "nextId (function_of [scenarioA_slice [1, 1]]) = 1"
    by (simp_all add: function_of_def)
  show ?thesis
    unfolding runOnFunction_def applyPartialConversion_def fuel_5 Let_def
    by (simp add: blk illegal legal_created_by_slice ConvertSliceOp_def ops
        scenarioA_11_rewritten ty commit_def eraseOp_def replaceAllUsesWith_def newOps_def
        arg del: matchAndRewrite.simps)
qed

text \<open>Scenario A through the pass, with no generated pattern. Strides \<open>[2, 1]\<close> leave the
  slice in place and fail the pass and the driver. Strides \<open>[1, 1]\<close> are converted,
  whatever the rounds given beyond some number, and with 5 rounds this is the function
  left.\<close>

theorem unconverted_operation_fails_pass_witness:
  "(\<exists>res f. runOnFunction [] 2 (function_of [scenarioA_slice [2, 1]]) = Some res
      \<and> passFailed res
      \<and> diagnostics res = [''xla_hlo to TF legalization failed.'']
      \<and> map_of (block (function_body res)) 0 = Some (mapOperands f (scenarioA_slice [2, 1])))
   \<and> runOnFunction [] 2 (function_of [scenarioA_slice [2, 1]])
     = Some \<lparr>function_body = function_of [scenarioA_slice [2, 1]],
             diagnostics = [''xla_hlo to TF legalization failed.''],
             passFailed = True\<rparr>
   \<and> (\<exists>(j, op) \<in> set (block (function_of [scenarioA_slice [2, 1]])).
        \<not> isLegal LegalizeHloToTf_target op)
   \<and> (\<exists>rw' f. convertOperations 2 LegalizeHloToTf_target ([] @ [ConvertSliceOp]) [0]
          (function_of [scenarioA_slice [2, 1]]) = Some (failure, rw')
        \<and> map_of (block rw') 0 = Some (mapOperands f (scenarioA_slice [2, 1])))
   \<and> (\<exists>n res.
        (\<forall>fuel \<ge> n. runOnFunction [] fuel (function_of [scenarioA_slice [1, 1]]) = Some res)
        \<and> \<not> passFailed res \<and> diagnostics res = []
        \<and> (\<forall>(j, op) \<in> set (block (function_body res)).
              isLegal LegalizeHloToTf_target op))
   \<and> runOnFunction [] 5 (function_of [scenarioA_slice [1, 1]])
     = Some \<lparr>function_body =
               \<lparr>block = [(1, TFConstOp (i64_vector [0, 1])),
                         (2, TFConstOp (i64_vector [4, 2])),
                         (3, TFSliceOp (f32_tensor [4, 2]) scenarioA_operand
                               (OpResult 1 (RankedTensorType [2] (IntegerType 64)))
                               (OpResult 2 (RankedTensorType [2] (IntegerType 64))))],
                insertionPoint = 4, nextId = 4,
                replacements = [(0, OpResult 3 (f32_tensor [4, 2]))]\<rparr>,
             diagnostics = [], passFailed = False\<rparr>"
proof -
  let ?t = LegalizeHloToTf_target
  have gen: "\<forall>p \<in> set []. preservesOps p"
    by simp
  note t21 = unconverted_operation_fails_pass [OF gen wellFormed_function_of,
      of "[scenarioA_slice [2, 1]]"]
  note t11 = unconverted_operation_fails_pass [OF gen wellFormed_function_of,
      of "[scenarioA_slice [1, 1]]"]
  have illegal: "\<not> isLegal ?t (scenarioA_slice [2, 1])"
    by (simp add: isLegal_def scenarioA_slice_def LegalizeHloToTf_target_def addLegalOp_def
        addLegalDialect_def newConversionTarget_def CallOp_def ConstantOp_def)
  have "map_of (block (function_of [scenarioA_slice [2, 1]])) 0 = Some (scenarioA_slice [2, 1])
      \<and> \<not> isLegal ?t (scenarioA_slice [2, 1])
      \<and> (\<forall>p \<in> set ([] @ [ConvertSliceOp]).
            \<forall>f rw. fst (p (0, mapOperands f (scenarioA_slice [2, 1])) rw) = failure)
      \<and> length (block (function_of [scenarioA_slice [2, 1]])) < 2"
    using illegal non_unit_slice_stuck by (simp add: function_of_def)
  from t21 [THEN conjunct1, rule_format, OF this]
  have 1: "\<exists>res f. runOnFunction [] 2 (function_of [scenarioA_slice [2, 1]]) = Some res
      \<and> passFailed res
      \<and> diagnostics res = [''xla_hlo to TF legalization failed.'']
      \<and> map_of (block (function_body res)) 0 = Some (mapOperands f (scenarioA_slice [2, 1]))" .
  from t21 [THEN conjunct2, THEN conjunct2, THEN conjunct2, THEN conjunct1, rule_format,
      OF scenarioA_21_fails]
  have 3: "\<exists>(j, op) \<in> set (block (function_of [scenarioA_slice [2, 1]])). \<not> isLegal ?t op"
    by simp
  have "wellFormed (function_of [scenarioA_slice [2, 1]])
      \<and> map_of (block (function_of [scenarioA_slice [2, 1]])) 0
          = Some (scenarioA_slice [2, 1])
      \<and> \<not> isLegal ?t (scenarioA_slice [2, 1])
      \<and> (\<forall>p \<in> set ([] @ [ConvertSliceOp]).
            \<forall>f rw. fst (p (0, mapOperands f (scenarioA_slice [2, 1])) rw) = failure)
      \<and> 0 \<in> set [0] \<and> length [0 :: nat] < 2"
    using illegal non_unit_slice_stuck
    by (simp add: wellFormed_function_of) (simp add: function_of_def)
  from t21 [THEN conjunct2, THEN conjunct1, rule_format, OF this]
  have 2: "\<exists>rw' f. convertOperations 2 ?t ([] @ [ConvertSliceOp]) [0]
          (function_of [scenarioA_slice [2, 1]]) = Some (failure, rw')
        \<and> map_of (block rw') 0 = Some (mapOperands f (scenarioA_slice [2, 1]))" .
  have unit: "unitStrideSlice (scenarioA_slice [1, 1])"
    using unit_splat_1_1 by (simp add: scenarioA_slice_def)
  have bounded: "\<forall>(j, op) \<in> set (block (function_of [scenarioA_slice [1, 1]])).
      sliceLevel op \<le> 1"
    using unit by (simp add: function_of_def sliceLevel_def)
  have lm: "\<forall>f op. sliceLevel (mapOperands f op) = sliceLevel op"
    by (simp add: sliceLevel_mapOperands)
  have dec: "\<forall>i op rw rw1.
      wellFormed rw \<and> map_of (block rw) i = Some op \<and> sliceLevel op \<le> 1
      \<and> \<not> isLegal ?t op \<and> tryPatterns ([] @ [ConvertSliceOp]) (i, op) rw = Some rw1
      \<longrightarrow> (\<forall>j op'. nextId rw \<le> j \<and> map_of (block rw1) j = Some op' \<longrightarrow>
            isLegal ?t op' \<or> sliceLevel op' < sliceLevel op)"
  proof (intro allI impI)
    fix i op rw rw1 j op'
    assume a: "wellFormed rw \<and> map_of (block rw) i = Some op \<and> sliceLevel op \<le> 1
      \<and> \<not> isLegal ?t op \<and> tryPatterns ([] @ [ConvertSliceOp]) (i, op) rw = Some rw1"
      and b: "nextId rw \<le> j \<and> map_of (block rw1) j = Some op'"
    from a have wf: "wellFormed rw" and "tryPatterns [ConvertSliceOp] (i, op) rw = Some rw1"
      by simp_all
    then have ok: "ConvertSliceOp (i, op) rw = (success, rw1)"
      by (cases "ConvertSliceOp (i, op) rw") (auto split: LogicalResult.splits)
    from b have "nextId rw \<le> j" and "map_of (block rw1) j = Some op'"
      by simp_all
    from ConvertSliceOp_creates_legal [OF wf ok this]
    show "isLegal ?t op' \<or> sliceLevel op' < sliceLevel op" ..
  qed
  have conv: "\<forall>i op rw. wellFormed rw \<and> map_of (block rw) i = Some op \<and> sliceLevel op \<le> 1
      \<longrightarrow> \<not> unconvertible ?t ([] @ [ConvertSliceOp]) (i, op) rw"
  proof (intro allI impI)
    fix i op rw
    assume a: "wellFormed rw \<and> map_of (block rw) i = Some op \<and> sliceLevel op \<le> 1"
    show "\<not> unconvertible ?t ([] @ [ConvertSliceOp]) (i, op) rw"
    proof (cases "isLegal ?t op")
      case True
      then show ?thesis by (simp add: unconvertible_def)
    next
      case False
      with a have "unitStrideSlice op"
        by (simp add: sliceLevel_def split: if_splits)
      from ConvertSliceOp_applies [OF this] show ?thesis by simp
    qed
  qed
  from bounded lm dec
  have "(\<forall>(j, op) \<in> set (block (function_of [scenarioA_slice [1, 1]])). sliceLevel op \<le> 1)
      \<and> (\<forall>f op. sliceLevel (mapOperands f op) = sliceLevel op)
      \<and> (\<forall>i op rw rw1.
            wellFormed rw \<and> map_of (block rw) i = Some op \<and> sliceLevel op \<le> 1
            \<and> \<not> isLegal ?t op \<and> tryPatterns ([] @ [ConvertSliceOp]) (i, op) rw = Some rw1
            \<longrightarrow> (\<forall>j op'. nextId rw \<le> j \<and> map_of (block rw1) j = Some op' \<longrightarrow>
                  isLegal ?t op' \<or> sliceLevel op' < sliceLevel op))"
    by (intro conjI)
  from t11 [THEN conjunct2, THEN conjunct2, THEN conjunct2, THEN conjunct2,
      THEN conjunct2, THEN spec, THEN spec, THEN mp, OF this]
  obtain n res where
    returns: "\<forall>fuel \<ge> n. runOnFunction [] fuel (function_of [scenarioA_slice [1, 1]])
      = Some res"
    and good: "(\<forall>i op rw. wellFormed rw \<and> map_of (block rw) i = Some op \<and> sliceLevel op \<le> 1
        \<longrightarrow> \<not> unconvertible ?t ([] @ [ConvertSliceOp]) (i, op) rw)
      \<longrightarrow> \<not> passFailed res \<and> diagnostics res = []
          \<and> (\<forall>(j, op) \<in> set (block (function_body res)). isLegal ?t op)"
    by (elim exE conjE) (rule that; assumption)
  from good conv have "\<not> passFailed res \<and> diagnostics res = []
      \<and> (\<forall>(j, op) \<in> set (block (function_body res)). isLegal ?t op)"
    by (rule mp)
  with returns
  have 4: "\<exists>n res.
      (\<forall>fuel \<ge> n. runOnFunction [] fuel (function_of [scenarioA_slice [1, 1]]) = Some res)
      \<and> \<not> passFailed res \<and> diagnostics res = []
      \<and> (\<forall>(j, op) \<in> set (block (function_body res)). isLegal ?t op)"
    by (intro exI [of _ n] exI [of _ res] conjI) simp_all
  from 1 scenarioA_21_fails 3 2 4 scenarioA_11_converts show ?thesis
    by (intro conjI)
qed

end
